theory Spec2Isabelle
  imports Main "HOL-Library.Multiset"
begin

section \<open>The bootstrap command of lerna: data model\<close>

text \<open>
  The theory embeds \<^verbatim>\<open>src/commands/BootstrapCommand.js\<close> (and its compiled copy
  \<^verbatim>\<open>lib/commands/BootstrapCommand.js\<close>, which differs in one expression). JavaScript
  strings are HOL strings (code units below 256); a value that may be \<^verbatim>\<open>undefined\<close> is an
  \<open>option\<close>, with \<open>None\<close> for \<^verbatim>\<open>undefined\<close>.
\<close>

type_synonym path = string

text \<open>An error object handed to a callback; only its \<^verbatim>\<open>code\<close> is inspected by the command.\<close>

datatype error = Error (err_code: "string option") (err_message: string)

text \<open>
  How an asynchronous step ends: its callback is called without an error (\<open>Done\<close>), with an
  error (\<open>Failed\<close>), or an exception is thrown out of it and nothing catches it (\<open>Thrown\<close>).
\<close>

datatype result = Done | Failed error | Thrown

text \<open>
  The \<^verbatim>\<open>Package\<close> objects of \<^verbatim>\<open>this.packages\<close>, with the properties the command reads. The
  object \<^verbatim>\<open>allDependencies\<close> is the list of its own properties in the order of
  \<^verbatim>\<open>Object.keys\<close>, each name once: \<^verbatim>\<open>allDependencies[d]\<close> is \<open>map_of\<close>, and \<open>None\<close> when \<open>d\<close>
  is not declared.
\<close>

record package =
  name :: string
  version :: "string option"
  location :: path
  nodeModulesLocation :: path
  allDependencies :: "(string \<times> string) list"

text \<open>
  What \<^verbatim>\<open>require(".../package.json")\<close> returns, with the properties the command reads:
  \<^verbatim>\<open>version\<close>, \<^verbatim>\<open>main\<close> and \<^verbatim>\<open>lerna.files\<close>. The array \<^verbatim>\<open>lerna.files\<close> may come to hold
  \<^verbatim>\<open>undefined\<close>, since the command pushes \<^verbatim>\<open>pkg.main\<close> onto it.
\<close>

record manifest =
  manifest_version :: "string option"
  manifest_main :: "string option"
  manifest_lerna_files :: "string option list option"

datatype glob_reply = Matches "string list" | GlobError error | GlobThrows

text \<open>
  The collaborators the command calls and which are not part of the file: the libraries
  \<^verbatim>\<open>semver\<close>, \<^verbatim>\<open>path\<close>, \<^verbatim>\<open>glob\<close> and \<^verbatim>\<open>fs-symlink\<close>, Node's \<^verbatim>\<open>require\<close> on a file that is not
  in the module cache, and the repository's \<^verbatim>\<open>FileSystemUtilities\<close>, \<^verbatim>\<open>NpmUtilities\<close> and
  \<^verbatim>\<open>PackageUtilities\<close>. They are parameters: \<open>'w\<close> is the state of the world outside the
  process (the file system), which the effectful ones read and change. Each operation of the
  file system and of the installer answers with the error it passes to its callback, if any.
  \<^verbatim>\<open>semver.satisfies\<close> is taken to answer with a boolean on all arguments, \<^verbatim>\<open>undefined\<close>
  included; \<^verbatim>\<open>glob\<close> may pass matches or an error to its callback, or throw (on a pattern that
  is not a string); \<open>load_json\<close> answers \<open>None\<close> when the file is missing or is not JSON.
\<close>

record 'w system =
  semver_satisfies :: "string option \<Rightarrow> string option \<Rightarrow> bool"
  path_join :: "string list \<Rightarrow> path"
  path_dirname :: "path \<Rightarrow> path"
  path_extname :: "path \<Rightarrow> string"
  glob :: "string option \<Rightarrow> path \<Rightarrow> 'w \<Rightarrow> glob_reply"
  load_json :: "path \<Rightarrow> 'w \<Rightarrow> manifest option"
  fs_mkdirp :: "path \<Rightarrow> 'w \<Rightarrow> error option \<times> 'w"
  fs_rimraf :: "path \<Rightarrow> 'w \<Rightarrow> error option \<times> 'w"
  fs_writeFile :: "path \<Rightarrow> string \<Rightarrow> 'w \<Rightarrow> error option \<times> 'w"
  fs_symlink :: "path \<Rightarrow> path \<Rightarrow> 'w \<Rightarrow> error option \<times> 'w"
  npm_installInDir :: "path \<Rightarrow> string list \<Rightarrow> 'w \<Rightarrow> error option \<times> 'w"
  filterPackages :: "package list \<Rightarrow> string option \<Rightarrow> bool \<Rightarrow> package list"

text \<open>
  The properties of \<^verbatim>\<open>this\<close> that the \<^verbatim>\<open>Command\<close> base class provides: \<^verbatim>\<open>this.packages\<close>,
  \<^verbatim>\<open>this.flags.ignore\<close>, \<^verbatim>\<open>this.repository.bootstrapConfig.ignore\<close>,
  \<^verbatim>\<open>this.repository.linkedFiles.prefix\<close> and \<^verbatim>\<open>this.concurrency\<close>.
\<close>

record command =
  packages :: "package list"
  flags_ignore :: "string option"
  bootstrapConfig_ignore :: "string option"
  linkedFiles_prefix :: "string option"
  concurrency :: nat

text \<open>
  Every call that leaves the command is recorded, in the order of the calls, with the reply it
  got: the calls of the logger and the progress bar, of \<^verbatim>\<open>semver.satisfies\<close>, of \<^verbatim>\<open>glob\<close>, and
  of the file system and installer operations.
\<close>

datatype event =
    Info string
  | Warning string
  | Success string
  | ProgressInit nat
  | ProgressTick string
  | ProgressTerminate
  | Satisfies "string option" "string option"
  | Glob "string option" path glob_reply
  | Mkdirp path "error option"
  | Rimraf path "error option"
  | WriteFile path string "error option"
  | Symlink path path "error option"
  | InstallInDir path "string list" "error option"

text \<open>
  The state threaded through the command: the world, Node's module cache (\<^verbatim>\<open>require\<close> returns
  the cached object of a file it has loaded before), and the record of the calls.
\<close>

record 'w state =
  world :: 'w
  cache :: "path \<Rightarrow> manifest option"
  log :: "event list"

type_synonym 'w task = "'w state \<Rightarrow> result \<times> 'w state"

definition emit :: "event \<Rightarrow> 'w state \<Rightarrow> 'w state" where
  "emit e s = s\<lparr>log := log s @ [e]\<rparr>"

text \<open>What a callback receives: \<^verbatim>\<open>cb()\<close> or \<^verbatim>\<open>cb(err)\<close>.\<close>

definition callback :: "error option \<Rightarrow> result" where
  "callback err = (case err of None \<Rightarrow> Done | Some e \<Rightarrow> Failed e)"

section \<open>JavaScript values\<close>

text \<open>A string or \<^verbatim>\<open>undefined\<close> as a condition: \<^verbatim>\<open>undefined\<close> and \<^verbatim>\<open>""\<close> are falsy.\<close>

definition truthy :: "string option \<Rightarrow> bool" where
  "truthy v = (case v of None \<Rightarrow> False | Some x \<Rightarrow> x \<noteq> [])"

text \<open>A string or \<^verbatim>\<open>undefined\<close> concatenated into a string.\<close>

definition toString :: "string option \<Rightarrow> string" where
  "toString v = (case v of None \<Rightarrow> ''undefined'' | Some x \<Rightarrow> x)"

definition dquote :: char where
  "dquote = CHR 0x22"

definition bslash :: char where
  "bslash = CHR 0x5C"

definition newline :: char where
  "newline = CHR 0x0A"

definition hexdigit :: "nat \<Rightarrow> char" where
  "hexdigit n = (if n < 10 then char_of (48 + n) else char_of (87 + n))"

text \<open>\<^verbatim>\<open>JSON.stringify\<close> of a string: the \<^verbatim>\<open>Quote\<close> operation of ECMAScript 5.1, 15.12.3.\<close>

definition quote_char :: "char \<Rightarrow> string" where
  "quote_char c =
     (if c = dquote \<or> c = bslash then [bslash, c]
      else if c = CHR 0x08 then [bslash, CHR ''b'']
      else if c = CHR 0x0C then [bslash, CHR ''f'']
      else if c = CHR 0x0A then [bslash, CHR ''n'']
      else if c = CHR 0x0D then [bslash, CHR ''r'']
      else if c = CHR 0x09 then [bslash, CHR ''t'']
      else if (of_char c :: nat) < 32
        then [bslash, CHR ''u'', CHR ''0'', CHR ''0'',
              hexdigit ((of_char c :: nat) div 16), hexdigit ((of_char c :: nat) mod 16)]
      else [c])"

definition JSON_stringify_string :: "string \<Rightarrow> string" where
  "JSON_stringify_string str = dquote # concat (map quote_char str) @ [dquote]"

fun intercalate :: "'a list \<Rightarrow> 'a list list \<Rightarrow> 'a list" where
  "intercalate sep [] = []"
| "intercalate sep [x] = x"
| "intercalate sep (x # y # ys) = x @ sep @ intercalate sep (y # ys)"

text \<open>
  \<^verbatim>\<open>JSON.stringify(obj, null, "  ")\<close> of an object whose properties, in order, are strings or
  \<^verbatim>\<open>undefined\<close>: a property that is \<^verbatim>\<open>undefined\<close> is left out.
\<close>

definition JSON_stringify_object :: "(string \<times> string option) list \<Rightarrow> string" where
  "JSON_stringify_object props =
     (let members = concat (map (\<lambda>(k, v). case v of None \<Rightarrow> []
                      | Some x \<Rightarrow> [JSON_stringify_string k @ '': '' @ JSON_stringify_string x]) props)
      in if members = [] then ''{}''
         else ''{'' @ [newline] @ ''  '' @ intercalate ('','' @ [newline] @ ''  '') members
              @ [newline] @ ''}'')"

section \<open>The asynchronous control flow of the async library\<close>

text \<open>
  The async library is not part of the repository; the functions below follow its
  documentation.

  \<^verbatim>\<open>async.series\<close>: the tasks one after the other, stopping at the first that fails.
\<close>

fun series :: "'w task list \<Rightarrow> 'w task" where
  "series [] s = (Done, s)"
| "series (t # ts) s = (case t s of (Done, s1) \<Rightarrow> series ts s1 | (r, s1) \<Rightarrow> (r, s1))"

text \<open>
  \<^verbatim>\<open>async.parallel\<close> and \<^verbatim>\<open>async.each\<close>: every task is started, and the final callback gets the
  first error. The model fixes one schedule: the tasks run to their end one after the other,
  in the order of the list; a task that fails does not keep the later ones from running, and an
  uncaught exception ends everything.
\<close>

fun parallel :: "'w task list \<Rightarrow> 'w task" where
  "parallel [] s = (Done, s)"
| "parallel (t # ts) s =
     (case t s of
        (Thrown, s1) \<Rightarrow> (Thrown, s1)
      | (r, s1) \<Rightarrow>
          (case parallel ts s1 of
             (Thrown, s2) \<Rightarrow> (Thrown, s2)
           | (r2, s2) \<Rightarrow> (if r = Done then r2 else r, s2)))"

definition each :: "'a list \<Rightarrow> ('a \<Rightarrow> 'w task) \<Rightarrow> 'w task" where
  "each xs iterator = parallel (map iterator xs)"

text \<open>The list without its element at position \<open>i\<close>.\<close>

definition remove_nth :: "nat \<Rightarrow> 'a list \<Rightarrow> 'a list" where
  "remove_nth i xs = take i xs @ drop (Suc i) xs"

definition pick :: "nat list \<Rightarrow> nat \<Rightarrow> nat" where
  "pick sched n = (case sched of [] \<Rightarrow> 0 | k # _ \<Rightarrow> k mod n)"

text \<open>
  \<^verbatim>\<open>async.parallelLimit\<close>, at the granularity of whole tasks. At most \<open>limit\<close> tasks are
  running; when one ends without error the pool is refilled from the pending ones, in order;
  after the first error no task is started any more, the tasks that are running go on, and the
  final callback has been called with that first error. Which of the running tasks ends next is
  decided by the event loop: the schedule \<open>sched\<close> gives, step by step, its position among the
  running ones. A task takes effect on the state when it ends, and the effects of the final
  callback are recorded once the running tasks have ended. The function also returns the
  tasks that ended with their results, in the order in which they ended. A limit of zero calls
  the final callback at once, without an error.
\<close>

function run_pool ::
  "('a \<Rightarrow> 'w task) \<Rightarrow> nat \<Rightarrow> nat list \<Rightarrow> 'a list \<Rightarrow> 'a list \<Rightarrow> error option \<Rightarrow>
   ('a \<times> result) list \<Rightarrow> 'w state \<Rightarrow> result \<times> ('a \<times> result) list \<times> 'w state" where
  "run_pool f limit sched pending running failure outs s =
     (if running = [] then (callback failure, outs, s)
      else
        (let i = pick sched (length running);
             x = running ! i;
             others = remove_nth i running
         in case f x s of
              (Thrown, s1) \<Rightarrow> (Thrown, outs @ [(x, Thrown)], s1)
            | (Failed e, s1) \<Rightarrow>
                run_pool f limit (tl sched) pending others
                  (case failure of None \<Rightarrow> Some e | Some e0 \<Rightarrow> Some e0)
                  (outs @ [(x, Failed e)]) s1
            | (Done, s1) \<Rightarrow>
                (if failure = None
                 then run_pool f limit (tl sched)
                        (drop (limit - length others) pending)
                        (others @ take (limit - length others) pending)
                        None (outs @ [(x, Done)]) s1
                 else run_pool f limit (tl sched) pending others failure
                        (outs @ [(x, Done)]) s1)))"
  by pat_completeness auto
termination
proof (relation "measure (\<lambda>(f, limit, sched, pending, running, failure, outs, s).
                   length pending + length running)", goal_cases)
  case 1
  show ?case by simp
next
  case prems: (2 f limit sched pending running failure outs s i x others)
  have "i < length running" using prems by (auto simp: pick_def split: list.splits)
  then have "length others < length running"
    using prems by (simp add: remove_nth_def)
  then show ?case by simp
next
  case prems: (3 f limit sched pending running failure outs s i x others)
  have "i < length running" using prems by (auto simp: pick_def split: list.splits)
  then have "length others < length running"
    using prems by (simp add: remove_nth_def)
  then show ?case by (simp add: min_def)
next
  case prems: (4 f limit sched pending running failure outs s i x others)
  have "i < length running" using prems by (auto simp: pick_def split: list.splits)
  then have "length others < length running"
    using prems by (simp add: remove_nth_def)
  then show ?case by simp
qed

definition parallelLimit ::
  "'a list \<Rightarrow> ('a \<Rightarrow> 'w task) \<Rightarrow> nat \<Rightarrow> nat list \<Rightarrow> 'w state \<Rightarrow>
   result \<times> ('a \<times> result) list \<times> 'w state" where
  "parallelLimit tasks f limit sched s =
     (if limit = 0 then (Done, [], s)
      else run_pool f limit sched (drop limit tasks) (take limit tasks) None [] s)"

section \<open>The operations of the collaborators, recorded\<close>

definition mkdirp :: "'w system \<Rightarrow> path \<Rightarrow> 'w task" where
  "mkdirp sys dir s =
     (case fs_mkdirp sys dir (world s) of
        (err, w) \<Rightarrow> (callback err, emit (Mkdirp dir err) (s\<lparr>world := w\<rparr>)))"

definition rimraf :: "'w system \<Rightarrow> path \<Rightarrow> 'w task" where
  "rimraf sys dir s =
     (case fs_rimraf sys dir (world s) of
        (err, w) \<Rightarrow> (callback err, emit (Rimraf dir err) (s\<lparr>world := w\<rparr>)))"

definition writeFile :: "'w system \<Rightarrow> path \<Rightarrow> string \<Rightarrow> 'w task" where
  "writeFile sys file contents s =
     (case fs_writeFile sys file contents (world s) of
        (err, w) \<Rightarrow> (callback err, emit (WriteFile file contents err) (s\<lparr>world := w\<rparr>)))"

definition installInDir :: "'w system \<Rightarrow> path \<Rightarrow> string list \<Rightarrow> 'w task" where
  "installInDir sys dir dependencies s =
     (case npm_installInDir sys dir dependencies (world s) of
        (err, w) \<Rightarrow> (callback err, emit (InstallInDir dir dependencies err) (s\<lparr>world := w\<rparr>)))"

text \<open>
  \<^verbatim>\<open>require(file)\<close> of a JSON file: the object in the module cache if the file was loaded
  before, else the file is loaded and cached. \<open>None\<close> stands for the exception that
  \<^verbatim>\<open>require\<close> throws when the file is missing or malformed.
\<close>

definition require :: "'w system \<Rightarrow> path \<Rightarrow> 'w state \<Rightarrow> manifest option \<times> 'w state" where
  "require sys file s =
     (case cache s file of
        Some m \<Rightarrow> (Some m, s)
      | None \<Rightarrow>
          (case load_json sys file (world s) of
             None \<Rightarrow> (None, s)
           | Some m \<Rightarrow> (Some m, s\<lparr>cache := (cache s)(file \<mapsto> m)\<rparr>)))"

text \<open>\<^verbatim>\<open>Array.prototype.filter\<close> with a predicate that has effects.\<close>

fun filter_st :: "('a \<Rightarrow> 's \<Rightarrow> bool \<times> 's) \<Rightarrow> 'a list \<Rightarrow> 's \<Rightarrow> 'a list \<times> 's" where
  "filter_st p [] s = ([], s)"
| "filter_st p (x # xs) s =
     (case p x s of
        (b, s1) \<Rightarrow> (case filter_st p xs s1 of (ys, s2) \<Rightarrow> (if b then x # ys else ys, s2)))"

fun string_of_nat :: "nat \<Rightarrow> string" where
  "string_of_nat n =
     (if n < 10 then [char_of (48 + n)]
      else string_of_nat (n div 10) @ [char_of (48 + n mod 10)])"

section \<open>BootstrapCommand\<close>

subsection \<open>Version checks\<close>

definition isCompatableVersion ::
  "'w system \<Rightarrow> string option \<Rightarrow> string option \<Rightarrow> 'w state \<Rightarrow> bool \<times> 'w state" where
  "isCompatableVersion sys actual expected s =
     (semver_satisfies sys actual expected, emit (Satisfies actual expected) s)"

text \<open>The template literal of the warning in \<^verbatim>\<open>hasMatchingDependency\<close>.\<close>

definition mismatchMessage ::
  "package \<Rightarrow> package \<Rightarrow> string option \<Rightarrow> string option \<Rightarrow> string" where
  "mismatchMessage pkg dependency expectedVersion actualVersion =
     ''Version mismatch inside '' @ [dquote] @ name pkg @ [dquote] @ ''. '' @
     ''Depends on '' @ [dquote] @ name dependency @ ''@'' @ toString expectedVersion @ [dquote]
     @ '' '' @
     ''instead of '' @ [dquote] @ name dependency @ ''@'' @ toString actualVersion @ [dquote]
     @ ''.''"

definition hasMatchingDependency ::
  "'w system \<Rightarrow> package \<Rightarrow> package \<Rightarrow> bool \<Rightarrow> 'w state \<Rightarrow> bool \<times> 'w state" where
  "hasMatchingDependency sys pkg dependency showWarning s =
     (let expectedVersion = map_of (allDependencies pkg) (name dependency);
          actualVersion = version dependency
      in if \<not> truthy expectedVersion then (False, s)
         else
           (case isCompatableVersion sys actualVersion expectedVersion s of
              (True, s1) \<Rightarrow> (True, s1)
            | (False, s1) \<Rightarrow>
                (False,
                 if showWarning
                 then emit (Warning (mismatchMessage pkg dependency expectedVersion
                                       actualVersion)) s1
                 else s1)))"

definition hasDependencyInstalled ::
  "'w system \<Rightarrow> package \<Rightarrow> string \<Rightarrow> 'w state \<Rightarrow> bool \<times> 'w state" where
  "hasDependencyInstalled sys pkg dependency s =
     (let packageJson = path_join sys [nodeModulesLocation pkg, dependency, ''package.json'']
      in case require sys packageJson s of
           (None, s1) \<Rightarrow> (False, s1)
         | (Some m, s1) \<Rightarrow>
             isCompatableVersion sys (manifest_version m)
               (map_of (allDependencies pkg) dependency) s1)"

subsection \<open>Installing the external packages\<close>

text \<open>
  The names that the two \<^verbatim>\<open>filter\<close> calls of \<^verbatim>\<open>installExternalPackages\<close> keep, out of
  \<^verbatim>\<open>Object.keys(allDependencies)\<close>.
\<close>

definition externalDependencies ::
  "'w system \<Rightarrow> command \<Rightarrow> package \<Rightarrow> 'w state \<Rightarrow> string list \<times> 'w state" where
  "externalDependencies sys cmd pkg s =
     (case filter_st
             (\<lambda>dependency s0.
                case find (\<lambda>p. name p = dependency) (packages cmd) of
                  None \<Rightarrow> (True, s0)
                | Some match \<Rightarrow>
                    (case hasMatchingDependency sys pkg match False s0 of
                       (b, s1) \<Rightarrow> (\<not> b, s1)))
             (map fst (allDependencies pkg)) s of
        (ds, s1) \<Rightarrow>
          filter_st
            (\<lambda>dependency s0.
               case hasDependencyInstalled sys pkg dependency s0 of (b, s2) \<Rightarrow> (\<not> b, s2))
            ds s1)"

definition installExternalPackages :: "'w system \<Rightarrow> command \<Rightarrow> package \<Rightarrow> 'w task" where
  "installExternalPackages sys cmd pkg s =
     (case externalDependencies sys cmd pkg s of
        (ds, s1) \<Rightarrow>
          (let externalPackages =
                 map (\<lambda>dependency.
                        dependency @ ''@'' @ toString (map_of (allDependencies pkg) dependency))
                     ds
           in if externalPackages \<noteq> []
              then installInDir sys (location pkg) externalPackages s1
              else (Done, s1)))"

subsection \<open>Linking one sibling\<close>

text \<open>
  \<^verbatim>\<open>symlink(src, dest)\<close> of fs-symlink with the handlers that the command chains to the
  promise: an error whose code is \<^verbatim>\<open>EEXIST\<close> is dropped.
\<close>

definition symlinkFile :: "'w system \<Rightarrow> path \<Rightarrow> path \<Rightarrow> 'w task" where
  "symlinkFile sys src dest s =
     (case fs_symlink sys src dest (world s) of
        (err, w) \<Rightarrow>
          ((case err of
              None \<Rightarrow> Done
            | Some e \<Rightarrow> if err_code e = Some ''EEXIST'' then Done else Failed e),
           emit (Symlink src dest err) (s\<lparr>world := w\<rparr>)))"

text \<open>The content of a generated proxy file.\<close>

definition fileContent :: "string \<Rightarrow> path \<Rightarrow> string" where
  "fileContent prefix target =
     prefix @ ''module.exports = require('' @ JSON_stringify_string target @ '');''"

text \<open>
  The iterator of \<^verbatim>\<open>async.each(files, ...)\<close> in \<^verbatim>\<open>createLinkedDependencyFiles\<close>: what is done
  with one matched file.
\<close>

definition linkFile :: "'w system \<Rightarrow> string \<Rightarrow> path \<Rightarrow> path \<Rightarrow> string \<Rightarrow> 'w task" where
  "linkFile sys prefix src dest file =
     (let dir = path_dirname sys (path_join sys [dest, file])
      in series
           [mkdirp sys dir,
            (if path_extname sys file = ''.js''
             then writeFile sys (path_join sys [dest, file])
                    (fileContent prefix (path_join sys [src, file]))
             else symlinkFile sys (path_join sys [src, file]) (path_join sys [dest, file]))])"

text \<open>
  \<^verbatim>\<open>async.map(linkFiles, (file, cb) => glob(file, { cwd: src }, cb), cb)\<close>: the matches of
  every pattern, or the first error.
\<close>

fun globFiles ::
  "'w system \<Rightarrow> path \<Rightarrow> string option list \<Rightarrow> 'w state \<Rightarrow> (result \<times> string list list) \<times> 'w state"
  where
  "globFiles sys src [] s = ((Done, []), s)"
| "globFiles sys src (file # rest) s =
     (case glob sys file src (world s) of
        GlobThrows \<Rightarrow> ((Thrown, []), emit (Glob file src GlobThrows) s)
      | GlobError e \<Rightarrow>
          (case globFiles sys src rest (emit (Glob file src (GlobError e)) s) of
             ((r, ms), s1) \<Rightarrow> ((if r = Thrown then Thrown else Failed e, []), s1))
      | Matches m \<Rightarrow>
          (case globFiles sys src rest (emit (Glob file src (Matches m)) s) of
             ((r, ms), s1) \<Rightarrow> ((r, if r = Done then m # ms else []), s1)))"

text \<open>
  The generated \<^verbatim>\<open>package.json\<close> of a linked sibling, as \<^verbatim>\<open>src/commands/BootstrapCommand.js\<close>
  builds it, and as the compiled \<^verbatim>\<open>lib/commands/BootstrapCommand.js\<close> builds it.
\<close>

definition packageJsonFileContents :: "string \<Rightarrow> manifest \<Rightarrow> string" where
  "packageJsonFileContents nm pkg =
     JSON_stringify_object [(''name'', Some nm), (''version'', manifest_version pkg)]"

definition packageJsonFileContents_lib :: "string \<Rightarrow> manifest \<Rightarrow> string" where
  "packageJsonFileContents_lib nm pkg =
     JSON_stringify_object
       [(''name'', Some nm), (''version'', manifest_version pkg), (''main'', manifest_main pkg)]"

text \<open>\<^verbatim>\<open>this.repository.linkedFiles.prefix || ""\<close>.\<close>

definition linkPrefix :: "command \<Rightarrow> string" where
  "linkPrefix cmd =
     (if truthy (linkedFiles_prefix cmd) then toString (linkedFiles_prefix cmd) else [])"

text \<open>
  \<^verbatim>\<open>createLinkedDependencyFiles\<close>, with the expression for the generated \<^verbatim>\<open>package.json\<close> as
  a parameter, since the two copies of the file differ in it. \<^verbatim>\<open>linkFiles\<close> is the array
  \<^verbatim>\<open>pkg.lerna.files\<close> itself when the manifest has one, so the \<^verbatim>\<open>push\<close> changes the object in
  the module cache.
\<close>

definition createLinkedDependencyFiles_with ::
  "(string \<Rightarrow> manifest \<Rightarrow> string) \<Rightarrow> 'w system \<Rightarrow> command \<Rightarrow> path \<Rightarrow> path \<Rightarrow> string \<Rightarrow> 'w task"
  where
  "createLinkedDependencyFiles_with contents sys cmd src dest nm s =
     (let srcPackageJsonLocation = path_join sys [src, ''package.json''];
          destPackageJsonLocation = path_join sys [dest, ''package.json'']
      in case require sys srcPackageJsonLocation s of
           (None, s1) \<Rightarrow> (Thrown, s1)
         | (Some pkg, s1) \<Rightarrow>
             (let prefix = linkPrefix cmd;
                  linkFiles = (case manifest_lerna_files pkg of None \<Rightarrow> [] | Some fs \<Rightarrow> fs)
                              @ [manifest_main pkg];
                  s2 = (case manifest_lerna_files pkg of
                          None \<Rightarrow> s1
                        | Some fs \<Rightarrow>
                            s1\<lparr>cache := (cache s1)(srcPackageJsonLocation \<mapsto>
                                          pkg\<lparr>manifest_lerna_files := Some linkFiles\<rparr>)\<rparr>)
              in parallel
                   [(\<lambda>s3. case globFiles sys src linkFiles s3 of
                            ((Done, files), s4) \<Rightarrow> each (concat files) (linkFile sys prefix src dest) s4
                          | ((r, files), s4) \<Rightarrow> (r, s4)),
                    writeFile sys destPackageJsonLocation (contents nm pkg)]
                   s2))"

definition createLinkedDependencyFiles ::
  "'w system \<Rightarrow> command \<Rightarrow> path \<Rightarrow> path \<Rightarrow> string \<Rightarrow> 'w task" where
  "createLinkedDependencyFiles = createLinkedDependencyFiles_with packageJsonFileContents"

definition createLinkedDependencyFiles_lib ::
  "'w system \<Rightarrow> command \<Rightarrow> path \<Rightarrow> path \<Rightarrow> string \<Rightarrow> 'w task" where
  "createLinkedDependencyFiles_lib = createLinkedDependencyFiles_with packageJsonFileContents_lib"

definition createLinkedDependency ::
  "'w system \<Rightarrow> command \<Rightarrow> path \<Rightarrow> path \<Rightarrow> string \<Rightarrow> 'w task" where
  "createLinkedDependency sys cmd src dest nm s =
     (case rimraf sys dest s of
        (Done, s1) \<Rightarrow>
          (case mkdirp sys dest s1 of
             (Done, s2) \<Rightarrow> createLinkedDependencyFiles sys cmd src dest nm s2
           | (r, s2) \<Rightarrow> (r, s2))
      | (r, s1) \<Rightarrow> (r, s1))"

subsection \<open>The pipeline of one package and the run over all packages\<close>

definition linkDependenciesForPackage :: "'w system \<Rightarrow> command \<Rightarrow> package \<Rightarrow> 'w task" where
  "linkDependenciesForPackage sys cmd pkg =
     each (packages cmd)
       (\<lambda>dependency s.
          case hasMatchingDependency sys pkg dependency True s of
            (False, s1) \<Rightarrow> (Done, s1)
          | (True, s1) \<Rightarrow>
              (let linkSrc = location dependency;
                   linkDest = path_join sys [nodeModulesLocation pkg, name dependency]
               in createLinkedDependency sys cmd linkSrc linkDest (name dependency) s1))"

text \<open>
  The task that \<^verbatim>\<open>linkDependencies\<close> builds for one package: the three steps in series, then
  the tick of the progress bar.
\<close>

definition bootstrapPackage :: "'w system \<Rightarrow> command \<Rightarrow> package \<Rightarrow> 'w task" where
  "bootstrapPackage sys cmd pkg s =
     (case series
             [mkdirp sys (nodeModulesLocation pkg),
              installExternalPackages sys cmd pkg,
              linkDependenciesForPackage sys cmd pkg] s of
        (Thrown, s1) \<Rightarrow> (Thrown, s1)
      | (r, s1) \<Rightarrow> (r, emit (ProgressTick (name pkg)) s1))"

definition linkDependencies ::
  "'w system \<Rightarrow> command \<Rightarrow> nat list \<Rightarrow> 'w state \<Rightarrow>
   result \<times> (package \<times> result) list \<times> 'w state" where
  "linkDependencies sys cmd sched s =
     (let s1 = emit (Info ''Linking all dependencies'')
                 (emit (ProgressInit (length (packages cmd))) s);
          ignore = (if truthy (flags_ignore cmd) then flags_ignore cmd
                    else bootstrapConfig_ignore cmd)
      in case parallelLimit (filterPackages sys (packages cmd) ignore True)
                (bootstrapPackage sys cmd) (concurrency cmd) sched s1 of
           (Thrown, outs, s2) \<Rightarrow> (Thrown, outs, s2)
         | (r, outs, s2) \<Rightarrow> (r, outs, emit ProgressTerminate s2))"

definition execute ::
  "'w system \<Rightarrow> command \<Rightarrow> nat list \<Rightarrow> 'w state \<Rightarrow>
   result \<times> (package \<times> result) list \<times> 'w state" where
  "execute sys cmd sched s =
     (case linkDependencies sys cmd sched s of
        (Done, outs, s1) \<Rightarrow>
          (Done, outs,
           emit (Success (''Successfully bootstrapped '' @ string_of_nat (length (packages cmd))
                          @ '' packages.'')) s1)
      | (r, outs, s1) \<Rightarrow> (r, outs, s1))"

section \<open>Observations on a run\<close>

text \<open>
  What the theorems below say about a run is said about the record of its calls: the events
  that a step added, the failure that an event stands for, the targets that were removed, and
  the outcome that a list of pipelines amounts to.
\<close>

text \<open>
  The failure that a recorded call stands for: the error it answered with, except that an
  \<^verbatim>\<open>EEXIST\<close> error of a symbolic link is none.
\<close>

fun failure_of :: "event \<Rightarrow> error option" where
  "failure_of (Mkdirp p err) = err"
| "failure_of (Rimraf p err) = err"
| "failure_of (WriteFile p c err) = err"
| "failure_of (InstallInDir d b err) = err"
| "failure_of (Symlink a b err) =
     (case err of None \<Rightarrow> None
      | Some e \<Rightarrow> if err_code e = Some ''EEXIST'' then None else Some e)"
| "failure_of (Glob f c r) = (case r of GlobError e \<Rightarrow> Some e | _ \<Rightarrow> None)"
| "failure_of _ = None"

text \<open>The first failure in a list of events.\<close>

fun first_failure :: "event list \<Rightarrow> error option" where
  "first_failure [] = None"
| "first_failure (e # es) =
     (case failure_of e of Some err \<Rightarrow> Some err | None \<Rightarrow> first_failure es)"

text \<open>The events that a step from the state \<open>s\<close> to the state \<open>s'\<close> has added.\<close>

definition new_events :: "'w state \<Rightarrow> 'w state \<Rightarrow> event list" where
  "new_events s s' = drop (length (log s)) (log s')"

text \<open>
  Three properties of steps, for the proofs: the step only adds events and ends, unless it
  throws, with the first failure among them; the step adds no failure; the step adds only
  events of a given kind.
\<close>

definition reports :: "'w task \<Rightarrow> bool" where
  "reports t =
     (\<forall>s. \<exists>d. log (snd (t s)) = log s @ d \<and>
            (fst (t s) = Thrown \<or> fst (t s) = callback (first_failure d)))"


definition emits_only :: "(event \<Rightarrow> bool) \<Rightarrow> ('w state \<Rightarrow> 'a \<times> 'w state) \<Rightarrow> bool" where
  "emits_only Q f = (\<forall>s. \<exists>d. log (snd (f s)) = log s @ d \<and> list_all Q d)"

text \<open>
  The paths that were removed, in order. Only \<^verbatim>\<open>createLinkedDependency\<close> calls \<^verbatim>\<open>rimraf\<close>, on the
  target of the link it is about to build.
\<close>

fun rimraf_paths :: "event list \<Rightarrow> path list" where
  "rimraf_paths [] = []"
| "rimraf_paths (Rimraf p err # es) = p # rimraf_paths es"
| "rimraf_paths (e # es) = rimraf_paths es"

text \<open>
  What a list of pipelines that have ended amounts to: the result of the first that is not a
  success, and success when there is none.
\<close>

fun first_outcome :: "('a \<times> result) list \<Rightarrow> result" where
  "first_outcome [] = Done"
| "first_outcome ((x, r) # rest) = (if r = Done then first_outcome rest else r)"

text \<open>
  The pipelines of the given packages run one after the other, each from the state that the one
  before it left: the result of each, and the state at the end.
\<close>

fun replay :: "('a \<Rightarrow> 'w task) \<Rightarrow> 'a list \<Rightarrow> 'w state \<Rightarrow> ('a \<times> result) list \<times> 'w state" where
  "replay f [] s = ([], s)"
| "replay f (x # xs) s =
     (case f x s of
        (r, s1) \<Rightarrow> (case replay f xs s1 of (outs, s2) \<Rightarrow> ((x, r) # outs, s2)))"

text \<open>
  The value of the body of a double-quoted JavaScript string literal, for the escapes that
  \<^verbatim>\<open>JSON.stringify\<close> writes, the escaped solidus and the four-digit escapes below 256; \<open>None\<close>
  for any other body.
\<close>

definition unhex :: "char \<Rightarrow> nat option" where
  "unhex c =
     (let n = (of_char c :: nat)
      in if 48 \<le> n \<and> n \<le> 57 then Some (n - 48)
         else if 97 \<le> n \<and> n \<le> 102 then Some (n - 87)
         else if 65 \<le> n \<and> n \<le> 70 then Some (n - 55)
         else None)"

definition unescape_char :: "char \<Rightarrow> char option" where
  "unescape_char c =
     (if c = dquote \<or> c = bslash \<or> c = CHR ''/'' then Some c
      else if c = CHR ''b'' then Some (CHR 0x08)
      else if c = CHR ''f'' then Some (CHR 0x0C)
      else if c = CHR ''n'' then Some (CHR 0x0A)
      else if c = CHR ''r'' then Some (CHR 0x0D)
      else if c = CHR ''t'' then Some (CHR 0x09)
      else None)"

fun js_unescape :: "string \<Rightarrow> string option" where
  "js_unescape [] = Some []"
| "js_unescape (c # cs) =
     (if c = bslash then
        (case cs of
           [] \<Rightarrow> None
         | d # ds \<Rightarrow>
             if d = CHR ''u'' then
               (case ds of
                  h1 # h2 # h3 # h4 # rest \<Rightarrow>
                    (case (unhex h1, unhex h2, unhex h3, unhex h4) of
                       (Some a, Some b, Some c', Some d') \<Rightarrow>
                         (let n = ((a * 16 + b) * 16 + c') * 16 + d'
                          in if n < 256 then map_option ((#) (char_of n)) (js_unescape rest)
                             else None)
                     | _ \<Rightarrow> None)
                | _ \<Rightarrow> None)
             else (case unescape_char d of
                     None \<Rightarrow> None
                   | Some ch \<Rightarrow> map_option ((#) ch) (js_unescape ds)))
      else if c = dquote then None
      else map_option ((#) c) (js_unescape cs))"

text \<open>A string without a given beginning, and without a given end.\<close>

definition strip_prefix :: "string \<Rightarrow> string \<Rightarrow> string option" where
  "strip_prefix p str = (if take (length p) str = p then Some (drop (length p) str) else None)"

definition strip_suffix :: "string \<Rightarrow> string \<Rightarrow> string option" where
  "strip_suffix p str =
     (if length p \<le> length str \<and> drop (length str - length p) str = p
      then Some (take (length str - length p) str) else None)"

text \<open>
  The path that a statement \<^verbatim>\<open>module.exports = require("...");\<close> requires: the value of its
  string literal.
\<close>

definition reexport_target :: "string \<Rightarrow> string option" where
  "reexport_target statement =
     (case strip_prefix ''module.exports = require('' statement of
        None \<Rightarrow> None
      | Some r1 \<Rightarrow>
          (case strip_suffix '');'' r1 of
             None \<Rightarrow> None
           | Some literal \<Rightarrow>
               (case strip_prefix [dquote] literal of
                  None \<Rightarrow> None
                | Some r2 \<Rightarrow>
                    (case strip_suffix [dquote] r2 of
                       None \<Rightarrow> None
                     | Some body \<Rightarrow> js_unescape body))))"

section \<open>A small workspace to run the command on\<close>

text \<open>
  A world for running the command on concrete inputs: the JSON files that \<^verbatim>\<open>require\<close> can
  load, the files that \<^verbatim>\<open>glob\<close> can match, and what the operations have written so far.
\<close>

record demo_world =
  manifests :: "(path \<times> manifest) list"
  tree :: "path list"
  written :: "(path \<times> string) list"
  links :: "(path \<times> path) list"
  dirs :: "path list"
  installed :: "(path \<times> string list) list"

definition demo_join :: "string list \<Rightarrow> path" where
  "demo_join parts = intercalate ''/'' (filter (\<lambda>p. p \<noteq> []) parts)"

definition demo_basename :: "path \<Rightarrow> string" where
  "demo_basename p = rev (takeWhile (\<lambda>c. c \<noteq> CHR ''/'') (rev p))"

definition demo_dirname :: "path \<Rightarrow> path" where
  "demo_dirname p =
     (if CHR ''/'' \<notin> set p then ''.''
      else if butlast (rev (dropWhile (\<lambda>c. c \<noteq> CHR ''/'') (rev p))) = [] then ''/''
      else butlast (rev (dropWhile (\<lambda>c. c \<noteq> CHR ''/'') (rev p))))"

definition demo_extname :: "path \<Rightarrow> string" where
  "demo_extname p =
     (let b = demo_basename p; e = rev (takeWhile (\<lambda>c. c \<noteq> CHR ''.'') (rev b))
      in if CHR ''.'' \<notin> set b \<or> Suc (length e) = length b \<or> b = ''..'' then []
         else CHR ''.'' # e)"

text \<open>
  The answers of \<^verbatim>\<open>semver.satisfies\<close> on the versions and ranges of the examples; the empty
  range is the range \<^verbatim>\<open>*\<close>.
\<close>

definition demo_satisfies :: "string option \<Rightarrow> string option \<Rightarrow> bool" where
  "demo_satisfies actual expected =
     (case (actual, expected) of
        (Some v, Some r) \<Rightarrow>
          List.member
            [(''1.2.0'', ''^1.0.0''), (''1.0.0'', ''^1.0.0''), (''1.2.0'', ''''), (''1.0.0'', '''')]
            (v, r)
      | _ \<Rightarrow> False)"

definition demo_glob :: "string option \<Rightarrow> path \<Rightarrow> demo_world \<Rightarrow> glob_reply" where
  "demo_glob pattern cwd w =
     (case pattern of
        None \<Rightarrow> GlobThrows
      | Some p \<Rightarrow> Matches (if List.member (tree w) (demo_join [cwd, p]) then [p] else []))"

definition demo_rimraf :: "path \<Rightarrow> demo_world \<Rightarrow> error option \<times> demo_world" where
  "demo_rimraf p w =
     (None, w\<lparr>written := filter (\<lambda>(q, c). take (length p) q \<noteq> p) (written w),
              links := filter (\<lambda>(q, t). take (length p) q \<noteq> p) (links w),
              dirs := filter (\<lambda>q. take (length p) q \<noteq> p) (dirs w)\<rparr>)"

definition demo_symlink :: "path \<Rightarrow> path \<Rightarrow> demo_world \<Rightarrow> error option \<times> demo_world" where
  "demo_symlink src dest w =
     (if List.member (map fst (links w) @ map fst (written w)) dest
      then (Some (Error (Some ''EEXIST'') ''file already exists''), w)
      else (None, w\<lparr>links := links w @ [(dest, src)]\<rparr>))"

definition demo_installInDir ::
  "path \<Rightarrow> string list \<Rightarrow> demo_world \<Rightarrow> error option \<times> demo_world" where
  "demo_installInDir dir batch w =
     (if List.member batch ''left-pad@^9.9.9''
      then (Some (Error (Some ''ETARGET'') ''No compatible version found''), w)
      else (None, w\<lparr>installed := installed w @ [(dir, batch)]\<rparr>))"

definition demo_sys :: "demo_world system" where
  "demo_sys =
     \<lparr>semver_satisfies = demo_satisfies,
      path_join = demo_join,
      path_dirname = demo_dirname,
      path_extname = demo_extname,
      glob = demo_glob,
      load_json = (\<lambda>file w. map_of (manifests w) file),
      fs_mkdirp = (\<lambda>p w. (None, w\<lparr>dirs := dirs w @ [p]\<rparr>)),
      fs_rimraf = demo_rimraf,
      fs_writeFile = (\<lambda>p c w. (None, w\<lparr>written := written w @ [(p, c)]\<rparr>)),
      fs_symlink = demo_symlink,
      npm_installInDir = demo_installInDir,
      filterPackages = (\<lambda>pkgs ignore flag. pkgs)\<rparr>"

definition pkgA :: package where
  "pkgA = \<lparr>name = ''A'', version = Some ''1.0.0'', location = ''/ws/A'',
           nodeModulesLocation = ''/ws/A/node_modules'',
           allDependencies = [(''B'', ''^1.0.0'')]\<rparr>"

definition pkgB :: package where
  "pkgB = \<lparr>name = ''B'', version = Some ''1.2.0'', location = ''/ws/B'',
           nodeModulesLocation = ''/ws/B/node_modules'', allDependencies = []\<rparr>"

definition manifestB :: manifest where
  "manifestB = \<lparr>manifest_version = Some ''1.2.0'', manifest_main = Some ''index.js'',
                manifest_lerna_files = Some [Some ''data.json'']\<rparr>"

definition pkgS :: package where
  "pkgS = \<lparr>name = ''S'', version = Some ''1.0.0'', location = ''/ws/S'',
           nodeModulesLocation = ''/ws/S/node_modules'',
           allDependencies = [(''S'', ''^1.0.0'')]\<rparr>"

definition manifestS :: manifest where
  "manifestS = \<lparr>manifest_version = Some ''1.0.0'', manifest_main = Some ''index.js'',
                manifest_lerna_files = None\<rparr>"

definition pkgC :: package where
  "pkgC = \<lparr>name = ''C'', version = Some ''0.1.0'', location = ''/ws/C'',
           nodeModulesLocation = ''/ws/C/node_modules'',
           allDependencies = [(''left-pad'', ''^9.9.9'')]\<rparr>"

definition pkgA_any :: package where
  "pkgA_any = \<lparr>name = ''A'', version = Some ''1.0.0'', location = ''/ws/A'',
               nodeModulesLocation = ''/ws/A/node_modules'',
               allDependencies = [(''B'', [])]\<rparr>"

definition demo_world0 :: demo_world where
  "demo_world0 =
     \<lparr>manifests = [(''/ws/B/package.json'', manifestB), (''/ws/S/package.json'', manifestS)],
      tree = [''/ws/B/index.js'', ''/ws/B/data.json'', ''/ws/S/index.js''],
      written = [], links = [], dirs = [], installed = []\<rparr>"

definition demo_state :: "demo_world state" where
  "demo_state = \<lparr>world = demo_world0, cache = (\<lambda>file. None), log = []\<rparr>"

definition demo_cmd :: command where
  "demo_cmd = \<lparr>packages = [pkgA, pkgB], flags_ignore = None, bootstrapConfig_ignore = None,
               linkedFiles_prefix = Some ''/* linked */ '', concurrency = 4\<rparr>"

definition pkgA_next :: package where
  "pkgA_next = \<lparr>name = ''A'', version = Some ''1.0.0'', location = ''/ws/A'',
                nodeModulesLocation = ''/ws/A/node_modules'',
                allDependencies = [(''B'', ''^2.0.0'')]\<rparr>"

definition next_cmd :: command where
  "next_cmd = demo_cmd\<lparr>packages := [pkgA_next, pkgB]\<rparr>"

definition any_cmd :: command where
  "any_cmd = demo_cmd\<lparr>packages := [pkgA_any, pkgB]\<rparr>"

definition self_cmd :: command where
  "self_cmd = demo_cmd\<lparr>packages := [pkgS]\<rparr>"

definition fail_cmd :: command where
  "fail_cmd = demo_cmd\<lparr>packages := [pkgC, pkgA, pkgB], concurrency := 1\<rparr>"

text \<open>The same workspace when the manifest of \<^verbatim>\<open>B\<close> cannot be loaded.\<close>

definition broken_state :: "demo_world state" where
  "broken_state = demo_state\<lparr>world := demo_world0\<lparr>manifests := []\<rparr>\<rparr>"


text \<open>
  The same workspace when the manifest of \<^verbatim>\<open>B\<close> names \<^verbatim>\<open>data.json\<close> as its main file too,
  so that the file is matched twice.
\<close>

definition twice_state :: "demo_world state" where
  "twice_state =
     demo_state\<lparr>world := demo_world0\<lparr>manifests :=
       [(''/ws/B/package.json'', manifestB\<lparr>manifest_main := Some ''data.json''\<rparr>)]\<rparr>\<rparr>"







section \<open>The control flow reports the first failure\<close>

lemma emit_simps [simp]:
  "log (emit e s) = log s @ [e]" "world (emit e s) = world s" "cache (emit e s) = cache s"
  by (simp_all add: emit_def)

lemma callback_simps [simp]: "callback None = Done" "callback (Some e) = Failed e"
  by (simp_all add: callback_def)

lemma callback_eq_Done [simp]: "(callback err = Done) = (err = None)"
  by (cases err) simp_all

lemma Done_eq_callback [simp]: "(Done = callback err) = (err = None)"
  by (cases err) simp_all

lemma callback_neq_Thrown [simp]: "callback err \<noteq> Thrown" "Thrown \<noteq> callback err"
  by (cases err; simp)+

lemma first_failure_append:
  "first_failure (a @ b) =
     (case first_failure a of Some e \<Rightarrow> Some e | None \<Rightarrow> first_failure b)"
  by (induction a) (auto split: option.splits)

lemma reportsI:
  assumes "\<And>s. \<exists>d. log (snd (t s)) = log s @ d \<and>
                 (fst (t s) = Thrown \<or> fst (t s) = callback (first_failure d))"
  shows "reports t"
  using assms by (simp add: reports_def)

lemma reportsE:
  assumes "reports t"
  obtains d where "log (snd (t s)) = log s @ d"
    and "fst (t s) = Thrown \<or> fst (t s) = callback (first_failure d)"
  using assms unfolding reports_def by blast


lemma reports_series:
  assumes "\<And>t. t \<in> set ts \<Longrightarrow> reports t"
  shows "reports (series ts)"
  using assms
proof (induction ts)
  case Nil
  show ?case by (rule reportsI) simp
next
  case (Cons t ts)
  have t: "reports t" and ts: "reports (series ts)" using Cons by simp_all
  show ?case
  proof (rule reportsI)
    fix s
    obtain d1 where d1: "log (snd (t s)) = log s @ d1"
      and r1: "fst (t s) = Thrown \<or> fst (t s) = callback (first_failure d1)"
      using t by (rule reportsE)
    obtain r s1 where ts1: "t s = (r, s1)" by (cases "t s")
    show "\<exists>d. log (snd (series (t # ts) s)) = log s @ d \<and>
              (fst (series (t # ts) s) = Thrown \<or>
               fst (series (t # ts) s) = callback (first_failure d))"
    proof (cases r)
      case Done
      obtain d2 where d2: "log (snd (series ts s1)) = log s1 @ d2"
        and r2: "fst (series ts s1) = Thrown \<or> fst (series ts s1) = callback (first_failure d2)"
        using ts by (rule reportsE)
      from Done ts1 r1 have "first_failure d1 = None" by simp
      with Done ts1 d1 d2 r2 show ?thesis
        by (intro exI[of _ "d1 @ d2"]) (simp add: first_failure_append)
    next
      case (Failed e)
      have "series (t # ts) s = (Failed e, s1)" using ts1 Failed by simp
      moreover have "log s1 = log s @ d1" using d1 ts1 by simp
      moreover have "Failed e = callback (first_failure d1)" using r1 ts1 Failed by simp
      ultimately show ?thesis by (intro exI[of _ d1]) simp
    next
      case Thrown
      have "series (t # ts) s = (Thrown, s1)" using ts1 Thrown by simp
      moreover have "log s1 = log s @ d1" using d1 ts1 by simp
      ultimately show ?thesis by (intro exI[of _ d1]) simp
    qed
  qed
qed

lemma reports_parallel:
  assumes "\<And>t. t \<in> set ts \<Longrightarrow> reports t"
  shows "reports (parallel ts)"
  using assms
proof (induction ts)
  case Nil
  show ?case by (rule reportsI) simp
next
  case (Cons t ts)
  have t: "reports t" and ts: "reports (parallel ts)" using Cons by simp_all
  show ?case
  proof (rule reportsI)
    fix s
    obtain d1 where d1: "log (snd (t s)) = log s @ d1"
      and r1: "fst (t s) = Thrown \<or> fst (t s) = callback (first_failure d1)"
      using t by (rule reportsE)
    obtain r s1 where ts1: "t s = (r, s1)" by (cases "t s")
    obtain d2 where d2: "log (snd (parallel ts s1)) = log s1 @ d2"
      and r2: "fst (parallel ts s1) = Thrown \<or>
               fst (parallel ts s1) = callback (first_failure d2)"
      using ts by (rule reportsE)
    obtain r' s2 where ts2: "parallel ts s1 = (r', s2)" by (cases "parallel ts s1")
    show "\<exists>d. log (snd (parallel (t # ts) s)) = log s @ d \<and>
              (fst (parallel (t # ts) s) = Thrown \<or>
               fst (parallel (t # ts) s) = callback (first_failure d))"
    proof (cases "r = Thrown")
      case True
      with ts1 d1 show ?thesis by (intro exI[of _ d1]) simp
    next
      case False
      with ts1 r1 have r: "r = callback (first_failure d1)" by simp
      show ?thesis
      proof (cases "r' = Thrown")
        case True
        with False ts1 ts2 d1 d2 show ?thesis
          by (intro exI[of _ "d1 @ d2"]) (simp split: result.splits)
      next
        case False
        with ts2 r2 have r': "r' = callback (first_failure d2)" by simp
        from \<open>r \<noteq> Thrown\<close> False ts1 ts2 d1 d2 r r' show ?thesis
          by (intro exI[of _ "d1 @ d2"])
             (auto simp: first_failure_append split: result.splits option.splits)
      qed
    qed
  qed
qed

lemma reports_each:
  assumes "\<And>x. x \<in> set xs \<Longrightarrow> reports (iterator x)"
  shows "reports (each xs iterator)"
  unfolding each_def using assms by (intro reports_parallel) auto

lemma reports_mkdirp: "reports (mkdirp sys dir)"
  by (rule reportsI) (simp add: mkdirp_def split: prod.splits option.splits)


lemma reports_writeFile: "reports (writeFile sys file contents)"
  by (rule reportsI) (simp add: writeFile_def split: prod.splits option.splits)


lemma reports_symlinkFile: "reports (symlinkFile sys src dest)"
  by (rule reportsI) (simp add: symlinkFile_def split: prod.splits option.splits)

lemma reports_linkFile: "reports (linkFile sys prefix src dest file)"
  unfolding linkFile_def Let_def
  by (rule reports_series) (auto simp: reports_mkdirp reports_writeFile reports_symlinkFile)




section \<open>What the functions of the command report\<close>

lemma require_log [simp]: "log (snd (require sys file s)) = log s"
  by (simp add: require_def split: option.splits)

lemma require_world [simp]: "world (snd (require sys file s)) = world s"
  by (simp add: require_def split: option.splits)

lemma isCompatableVersion_simps [simp]:
  "fst (isCompatableVersion sys actual expected s) = semver_satisfies sys actual expected"
  "log (snd (isCompatableVersion sys actual expected s)) = log s @ [Satisfies actual expected]"
  "world (snd (isCompatableVersion sys actual expected s)) = world s"
  "cache (snd (isCompatableVersion sys actual expected s)) = cache s"
  by (simp_all add: isCompatableVersion_def)

lemma hasMatchingDependency_fst:
  "fst (hasMatchingDependency sys pkg dependency showWarning s) =
     (truthy (map_of (allDependencies pkg) (name dependency)) \<and>
      semver_satisfies sys (version dependency) (map_of (allDependencies pkg) (name dependency)))"
  by (simp add: hasMatchingDependency_def Let_def isCompatableVersion_def split: bool.splits)

lemma hasMatchingDependency_log:
  "log (snd (hasMatchingDependency sys pkg dependency showWarning s)) =
     log s @
     (if truthy (map_of (allDependencies pkg) (name dependency))
      then Satisfies (version dependency) (map_of (allDependencies pkg) (name dependency)) #
           (if \<not> semver_satisfies sys (version dependency)
                   (map_of (allDependencies pkg) (name dependency)) \<and> showWarning
            then [Warning (mismatchMessage pkg dependency
                    (map_of (allDependencies pkg) (name dependency)) (version dependency))]
            else [])
      else [])"
  by (simp add: hasMatchingDependency_def Let_def isCompatableVersion_def split: bool.splits)

lemma hasMatchingDependency_world [simp]:
  "world (snd (hasMatchingDependency sys pkg dependency showWarning s)) = world s"
  by (simp add: hasMatchingDependency_def Let_def isCompatableVersion_def split: bool.splits)

lemma hasMatchingDependency_cache [simp]:
  "cache (snd (hasMatchingDependency sys pkg dependency showWarning s)) = cache s"
  by (simp add: hasMatchingDependency_def Let_def isCompatableVersion_def split: bool.splits)















section \<open>The events that a step can record\<close>

lemma emits_onlyI:
  assumes "\<And>s. \<exists>d. log (snd (f s)) = log s @ d \<and> list_all Q d"
  shows "emits_only Q f"
  using assms by (simp add: emits_only_def)

lemma emits_onlyE:
  assumes "emits_only Q f"
  obtains d where "log (snd (f s)) = log s @ d" and "list_all Q d"
  using assms unfolding emits_only_def by blast

lemma emits_only_new_events:
  assumes "emits_only Q f" and "f s = (r, s')"
  shows "list_all Q (new_events s s')"
proof -
  obtain d where "log (snd (f s)) = log s @ d" and "list_all Q d"
    using assms(1) by (rule emits_onlyE)
  with assms(2) show ?thesis by (simp add: new_events_def)
qed

lemma emits_only_series:
  assumes "\<And>t. t \<in> set ts \<Longrightarrow> emits_only Q t"
  shows "emits_only Q (series ts)"
  using assms
proof (induction ts)
  case Nil
  show ?case by (rule emits_onlyI) simp
next
  case (Cons t ts)
  have t: "emits_only Q t" and ts: "emits_only Q (series ts)" using Cons by simp_all
  show ?case
  proof (rule emits_onlyI)
    fix s
    obtain r s1 where ts1: "t s = (r, s1)" by (cases "t s")
    obtain d1 where d1: "log (snd (t s)) = log s @ d1" and q1: "list_all Q d1"
      using t by (rule emits_onlyE)
    obtain d2 where d2: "log (snd (series ts s1)) = log s1 @ d2" and q2: "list_all Q d2"
      using ts by (rule emits_onlyE)
    show "\<exists>d. log (snd (series (t # ts) s)) = log s @ d \<and> list_all Q d"
    proof (cases "r = Done")
      case True
      with ts1 d1 d2 q1 q2 show ?thesis by (intro exI[of _ "d1 @ d2"]) simp
    next
      case False
      with ts1 have "series (t # ts) s = (r, s1)" by (cases r) simp_all
      with ts1 d1 q1 show ?thesis by (intro exI[of _ d1]) simp
    qed
  qed
qed

lemma emits_only_parallel:
  assumes "\<And>t. t \<in> set ts \<Longrightarrow> emits_only Q t"
  shows "emits_only Q (parallel ts)"
  using assms
proof (induction ts)
  case Nil
  show ?case by (rule emits_onlyI) simp
next
  case (Cons t ts)
  have t: "emits_only Q t" and ts: "emits_only Q (parallel ts)" using Cons by simp_all
  show ?case
  proof (rule emits_onlyI)
    fix s
    obtain r s1 where ts1: "t s = (r, s1)" by (cases "t s")
    obtain d1 where d1: "log (snd (t s)) = log s @ d1" and q1: "list_all Q d1"
      using t by (rule emits_onlyE)
    obtain r' s2 where ts2: "parallel ts s1 = (r', s2)" by (cases "parallel ts s1")
    obtain d2 where d2: "log (snd (parallel ts s1)) = log s1 @ d2" and q2: "list_all Q d2"
      using ts by (rule emits_onlyE)
    show "\<exists>d. log (snd (parallel (t # ts) s)) = log s @ d \<and> list_all Q d"
    proof (cases "r = Thrown")
      case True
      with ts1 d1 q1 show ?thesis by (intro exI[of _ d1]) simp
    next
      case False
      then have "snd (parallel (t # ts) s) = s2"
        using ts1 ts2 by (cases r; cases r') simp_all
      with ts1 ts2 d1 d2 q1 q2 show ?thesis by (intro exI[of _ "d1 @ d2"]) simp
    qed
  qed
qed

lemma emits_only_each:
  assumes "\<And>x. x \<in> set xs \<Longrightarrow> emits_only Q (iterator x)"
  shows "emits_only Q (each xs iterator)"
  unfolding each_def using assms by (intro emits_only_parallel) auto

lemma emits_only_mkdirp:
  assumes "\<And>err. Q (Mkdirp dir err)"
  shows "emits_only Q (mkdirp sys dir)"
  by (rule emits_onlyI) (simp add: mkdirp_def assms split: prod.splits)

lemma emits_only_rimraf:
  assumes "\<And>err. Q (Rimraf dir err)"
  shows "emits_only Q (rimraf sys dir)"
  by (rule emits_onlyI) (simp add: rimraf_def assms split: prod.splits)

lemma emits_only_writeFile:
  assumes "\<And>err. Q (WriteFile file contents err)"
  shows "emits_only Q (writeFile sys file contents)"
  by (rule emits_onlyI) (simp add: writeFile_def assms split: prod.splits)

lemma emits_only_symlinkFile:
  assumes "\<And>err. Q (Symlink src dest err)"
  shows "emits_only Q (symlinkFile sys src dest)"
  by (rule emits_onlyI) (simp add: symlinkFile_def assms split: prod.splits)

lemma emits_only_linkFile:
  assumes "\<And>p err. Q (Mkdirp p err)"
    and "\<And>err. path_extname sys file = ''.js'' \<Longrightarrow>
           Q (WriteFile (path_join sys [dest, file])
                (fileContent prefix (path_join sys [src, file])) err)"
    and "\<And>err. path_extname sys file \<noteq> ''.js'' \<Longrightarrow>
           Q (Symlink (path_join sys [src, file]) (path_join sys [dest, file]) err)"
  shows "emits_only Q (linkFile sys prefix src dest file)"
proof -
  have "emits_only Q (mkdirp sys (path_dirname sys (path_join sys [dest, file])))"
    by (rule emits_only_mkdirp) (rule assms(1))
  moreover have "path_extname sys file = ''.js'' \<Longrightarrow>
      emits_only Q (writeFile sys (path_join sys [dest, file])
                      (fileContent prefix (path_join sys [src, file])))"
    by (rule emits_only_writeFile) (rule assms(2))
  moreover have "path_extname sys file \<noteq> ''.js'' \<Longrightarrow>
      emits_only Q (symlinkFile sys (path_join sys [src, file]) (path_join sys [dest, file]))"
    by (rule emits_only_symlinkFile) (rule assms(3))
  ultimately show ?thesis
    unfolding linkFile_def Let_def by (intro emits_only_series) auto
qed

lemma globFiles_emits_only:
  assumes "\<And>f r. Q (Glob f src r)"
  shows "\<exists>d. log (snd (globFiles sys src fs s)) = log s @ d \<and> list_all Q d"
proof (induction fs arbitrary: s)
  case Nil
  show ?case by simp
next
  case (Cons f fs)
  show ?case
  proof (cases "glob sys f src (world s)")
    case GlobThrows
    then show ?thesis by (intro exI[of _ "[Glob f src GlobThrows]"]) (simp add: assms)
  next
    case (GlobError e)
    let ?s1 = "emit (Glob f src (GlobError e)) s"
    obtain r ms s2 where g: "globFiles sys src fs ?s1 = ((r, ms), s2)"
      by (cases "globFiles sys src fs ?s1") auto
    obtain d where d: "log (snd (globFiles sys src fs ?s1)) = log ?s1 @ d" and "list_all Q d"
      using Cons[of ?s1] by blast
    with GlobError g show ?thesis
      by (intro exI[of _ "Glob f src (GlobError e) # d"]) (simp add: assms)
  next
    case (Matches m)
    let ?s1 = "emit (Glob f src (Matches m)) s"
    obtain r ms s2 where g: "globFiles sys src fs ?s1 = ((r, ms), s2)"
      by (cases "globFiles sys src fs ?s1") auto
    obtain d where d: "log (snd (globFiles sys src fs ?s1)) = log ?s1 @ d" and "list_all Q d"
      using Cons[of ?s1] by blast
    with Matches g show ?thesis
      by (intro exI[of _ "Glob f src (Matches m) # d"]) (simp add: assms)
  qed
qed

lemma emits_only_createLinkedDependencyFiles_with:
  assumes glob: "\<And>f r. Q (Glob f src r)"
    and mk: "\<And>p err. Q (Mkdirp p err)"
    and manifest: "\<And>pkg err.
           Q (WriteFile (path_join sys [dest, ''package.json'']) (contents nm pkg) err)"
    and proxy: "\<And>file err. path_extname sys file = ''.js'' \<Longrightarrow>
           Q (WriteFile (path_join sys [dest, file])
                (fileContent (linkPrefix cmd) (path_join sys [src, file])) err)"
    and link: "\<And>file err. path_extname sys file \<noteq> ''.js'' \<Longrightarrow>
           Q (Symlink (path_join sys [src, file]) (path_join sys [dest, file]) err)"
  shows "emits_only Q (createLinkedDependencyFiles_with contents sys cmd src dest nm)"
proof (rule emits_onlyI)
  fix s
  let ?c = "createLinkedDependencyFiles_with contents sys cmd src dest nm"
  obtain m s1 where rq: "require sys (path_join sys [src, ''package.json'']) s = (m, s1)"
    by (cases "require sys (path_join sys [src, ''package.json'']) s")
  have l1: "log s1 = log s"
    using require_log[of sys "path_join sys [src, ''package.json'']" s] rq by simp
  show "\<exists>d. log (snd (?c s)) = log s @ d \<and> list_all Q d"
  proof (cases m)
    case None
    with rq l1 show ?thesis
      by (intro exI[of _ "[]"]) (simp add: createLinkedDependencyFiles_with_def Let_def)
  next
    case (Some pkg)
    define linkFiles where
      "linkFiles = (case manifest_lerna_files pkg of None \<Rightarrow> [] | Some fs \<Rightarrow> fs) @ [manifest_main pkg]"
    define s2 where
      "s2 = (case manifest_lerna_files pkg of
               None \<Rightarrow> s1
             | Some fs \<Rightarrow>
                 s1\<lparr>cache := (cache s1)(path_join sys [src, ''package.json''] \<mapsto>
                               pkg\<lparr>manifest_lerna_files := Some linkFiles\<rparr>)\<rparr>)"
    define files_task :: "'a task" where
      "files_task = (\<lambda>s3. case globFiles sys src linkFiles s3 of
                   ((Done, files), s4) \<Rightarrow>
                     each (concat files) (linkFile sys (linkPrefix cmd) src dest) s4
                 | ((r, files), s4) \<Rightarrow> (r, s4))"
    define tasks where
      "tasks = [files_task,
                writeFile sys (path_join sys [dest, ''package.json'']) (contents nm pkg)]"
    have eq: "?c s = parallel tasks s2"
      unfolding createLinkedDependencyFiles_with_def Let_def linkFiles_def
        s2_def tasks_def files_task_def
      by (simp only: rq[unfolded Some] prod.case option.case)
    have l2: "log s2 = log s" using l1 by (simp add: s2_def split: option.splits)
    have ft: "emits_only Q files_task"
    proof (rule emits_onlyI)
      fix s3
      obtain r files s4 where g: "globFiles sys src linkFiles s3 = ((r, files), s4)"
        by (cases "globFiles sys src linkFiles s3") auto
      obtain d1 where d1: "log s4 = log s3 @ d1" and q1: "list_all Q d1"
        using globFiles_emits_only[of Q src sys linkFiles s3, OF glob] g by auto
      show "\<exists>d. log (snd (files_task s3)) = log s3 @ d \<and> list_all Q d"
      proof (cases "r = Done")
        case True
        have "emits_only Q (each (concat files) (linkFile sys (linkPrefix cmd) src dest))"
          by (rule emits_only_each) (rule emits_only_linkFile; simp add: mk proxy link)
        then obtain d2 where
          "log (snd (each (concat files) (linkFile sys (linkPrefix cmd) src dest) s4)) = log s4 @ d2"
          and "list_all Q d2"
          by (rule emits_onlyE)
        with True g d1 q1 show ?thesis
          by (intro exI[of _ "d1 @ d2"]) (simp add: files_task_def)
      next
        case False
        with g have "files_task s3 = (r, s4)" by (cases r) (simp_all add: files_task_def)
        with d1 q1 show ?thesis by (intro exI[of _ d1]) simp
      qed
    qed
    have "emits_only Q (parallel tasks)"
      by (rule emits_only_parallel)
         (auto simp: tasks_def ft intro: emits_only_writeFile manifest)
    then obtain d where "log (snd (parallel tasks s2)) = log s2 @ d" and "list_all Q d"
      by (rule emits_onlyE)
    with eq l2 show ?thesis by (intro exI[of _ d]) simp
  qed
qed

section \<open>The targets of the linking phase\<close>

lemma rimraf_paths_append: "rimraf_paths (a @ b) = rimraf_paths a @ rimraf_paths b"
  by (induction a rule: rimraf_paths.induct) simp_all

lemma rimraf_paths_none:
  "list_all (\<lambda>e. rimraf_paths [e] = []) d \<Longrightarrow> rimraf_paths d = []"
  by (induction d rule: rimraf_paths.induct) simp_all

lemma each_rimraf_paths:
  assumes "\<And>x s. \<exists>d. log (snd (iterator x s)) = log s @ d \<and> rimraf_paths d = g x"
    and "fst (each xs iterator s) \<noteq> Thrown"
  shows "\<exists>d. log (snd (each xs iterator s)) = log s @ d \<and> rimraf_paths d = concat (map g xs)"
  using assms(2)
proof (induction xs arbitrary: s)
  case Nil
  show ?case by (simp add: each_def)
next
  case (Cons x xs)
  obtain r s1 where it: "iterator x s = (r, s1)" by (cases "iterator x s")
  obtain r' s2 where rest: "each xs iterator s1 = (r', s2)" by (cases "each xs iterator s1")
  from Cons.prems it have r: "r \<noteq> Thrown" by (auto simp: each_def)
  with Cons.prems it rest have r': "r' \<noteq> Thrown"
    by (cases r; cases r') (auto simp: each_def)
  obtain d1 where d1: "log s1 = log s @ d1" and g1: "rimraf_paths d1 = g x"
    using assms(1)[of x s] it by auto
  obtain d2 where d2: "log s2 = log s1 @ d2" and g2: "rimraf_paths d2 = concat (map g xs)"
    using Cons.IH[of s1] rest r' by auto
  have "snd (each (x # xs) iterator s) = s2"
    using it rest r r' by (cases r; cases r') (simp_all add: each_def)
  with d1 d2 g1 g2 show ?case
    by (intro exI[of _ "d1 @ d2"]) (simp add: rimraf_paths_append)
qed

lemma emits_no_rimraf_createLinkedDependencyFiles:
  "emits_only (\<lambda>e. rimraf_paths [e] = []) (createLinkedDependencyFiles sys cmd src dest nm)"
  unfolding createLinkedDependencyFiles_def
  by (rule emits_only_createLinkedDependencyFiles_with) simp_all

lemma emits_no_rimraf_mkdirp: "emits_only (\<lambda>e. rimraf_paths [e] = []) (mkdirp sys dest)"
  by (rule emits_only_mkdirp) simp

lemma createLinkedDependency_series:
  "createLinkedDependency sys cmd src dest nm =
     series [rimraf sys dest, mkdirp sys dest, createLinkedDependencyFiles sys cmd src dest nm]"
proof (rule ext)
  fix s
  obtain r1 s1 where a: "rimraf sys dest s = (r1, s1)" by (cases "rimraf sys dest s")
  obtain r2 s2 where b: "mkdirp sys dest s1 = (r2, s2)" by (cases "mkdirp sys dest s1")
  obtain r3 s3 where c: "createLinkedDependencyFiles sys cmd src dest nm s2 = (r3, s3)"
    by (cases "createLinkedDependencyFiles sys cmd src dest nm s2")
  show "createLinkedDependency sys cmd src dest nm s =
     series [rimraf sys dest, mkdirp sys dest, createLinkedDependencyFiles sys cmd src dest nm] s"
    using a b c by (cases r1; cases r2; cases r3) (simp_all add: createLinkedDependency_def)
qed

lemma series_Cons_Done: "t s = (Done, s1) \<Longrightarrow> series (t # ts) s = series ts s1"
  by simp

lemma series_Cons_Failed: "t s = (Failed e, s1) \<Longrightarrow> series (t # ts) s = (Failed e, s1)"
  by simp

lemma createLinkedDependency_rimraf_paths:
  "\<exists>d. log (snd (createLinkedDependency sys cmd src dest nm s)) = log s @ d \<and>
       rimraf_paths d = [dest]"
proof -
  let ?Q = "\<lambda>e. rimraf_paths [e] = []"
  let ?rest = "series [mkdirp sys dest, createLinkedDependencyFiles sys cmd src dest nm]"
  obtain err w where rm: "fs_rimraf sys dest (world s) = (err, w)"
    by (cases "fs_rimraf sys dest (world s)")
  define s1 where "s1 = emit (Rimraf dest err) (s\<lparr>world := w\<rparr>)"
  have r: "rimraf sys dest s = (callback err, s1)" using rm by (simp add: rimraf_def s1_def)
  have l1: "log s1 = log s @ [Rimraf dest err]" by (simp add: s1_def)
  show ?thesis
  proof (cases err)
    case (Some e)
    have "rimraf sys dest s = (Failed e, s1)" using r Some by simp
    then have "createLinkedDependency sys cmd src dest nm s = (Failed e, s1)"
      unfolding createLinkedDependency_series by (rule series_Cons_Failed)
    then have A: "log (snd (createLinkedDependency sys cmd src dest nm s)) = log s @ [Rimraf dest err]"
      using l1 by simp
    have B: "rimraf_paths [Rimraf dest err] = [dest]" by simp
    show ?thesis by (rule exI[of _ "[Rimraf dest err]"]) (rule conjI[OF A B])
  next
    case None
    have "emits_only ?Q ?rest"
      by (rule emits_only_series)
         (auto simp: emits_no_rimraf_mkdirp emits_no_rimraf_createLinkedDependencyFiles)
    then obtain d where d: "log (snd (?rest s1)) = log s1 @ d" and q: "list_all ?Q d"
      by (rule emits_onlyE)
    have "rimraf sys dest s = (Done, s1)" using r None by simp
    then have "createLinkedDependency sys cmd src dest nm s = ?rest s1"
      unfolding createLinkedDependency_series by (rule series_Cons_Done)
    then have A: "log (snd (createLinkedDependency sys cmd src dest nm s)) = log s @ Rimraf dest err # d"
      using d l1 by (simp del: series.simps)
    have B: "rimraf_paths (Rimraf dest err # d) = [dest]"
      using rimraf_paths_none[OF q] by simp
    show ?thesis by (rule exI[of _ "Rimraf dest err # d"]) (rule conjI[OF A B])
  qed
qed

text \<open>The link targets of one package's linking phase.\<close>

lemma linkDependenciesForPackage_targets:
  assumes "linkDependenciesForPackage sys cmd pkg s = (r, s')" and "r \<noteq> Thrown"
  shows "rimraf_paths (new_events s s') =
           map (\<lambda>dependency. path_join sys [nodeModulesLocation pkg, name dependency])
             (filter (\<lambda>dependency. fst (hasMatchingDependency sys pkg dependency True s))
                (packages cmd))"
proof -
  let ?it = "\<lambda>dependency s.
          case hasMatchingDependency sys pkg dependency True s of
            (False, s1) \<Rightarrow> (Done, s1)
          | (True, s1) \<Rightarrow>
              (let linkSrc = location dependency;
                   linkDest = path_join sys [nodeModulesLocation pkg, name dependency]
               in createLinkedDependency sys cmd linkSrc linkDest (name dependency) s1)"
  let ?g = "\<lambda>dependency.
              if fst (hasMatchingDependency sys pkg dependency True s)
              then [path_join sys [nodeModulesLocation pkg, name dependency]] else []"
  have step: "\<exists>d. log (snd (?it x s0)) = log s0 @ d \<and> rimraf_paths d = ?g x" for x s0
  proof -
    obtain b s1 where h: "hasMatchingDependency sys pkg x True s0 = (b, s1)"
      by (cases "hasMatchingDependency sys pkg x True s0")
    have b: "b = fst (hasMatchingDependency sys pkg x True s)"
      using h hasMatchingDependency_fst[of sys pkg x True s0]
        hasMatchingDependency_fst[of sys pkg x True s] by simp
    obtain d1 where d1: "log s1 = log s0 @ d1" and q1: "rimraf_paths d1 = []"
      using h hasMatchingDependency_log[of sys pkg x True s0] by auto
    show ?thesis
    proof (cases b)
      case False
      with h b d1 q1 show ?thesis by (intro exI[of _ d1]) simp
    next
      case True
      obtain d2 where
        "log (snd (createLinkedDependency sys cmd (location x)
                     (path_join sys [nodeModulesLocation pkg, name x]) (name x) s1)) = log s1 @ d2"
        and "rimraf_paths d2 = [path_join sys [nodeModulesLocation pkg, name x]]"
        using createLinkedDependency_rimraf_paths by blast
      with True h b d1 q1 show ?thesis
        by (intro exI[of _ "d1 @ d2"]) (simp add: rimraf_paths_append Let_def)
    qed
  qed
  have "fst (each (packages cmd) ?it s) \<noteq> Thrown"
    using assms by (simp add: linkDependenciesForPackage_def)
  from each_rimraf_paths[of ?it ?g "packages cmd" s, OF step this]
  obtain d where "log (snd (each (packages cmd) ?it s)) = log s @ d"
    and "rimraf_paths d = concat (map ?g (packages cmd))"
    by blast
  moreover have "concat (map ?g xs) =
      map (\<lambda>dependency. path_join sys [nodeModulesLocation pkg, name dependency])
        (filter (\<lambda>dependency. fst (hasMatchingDependency sys pkg dependency True s)) xs)" for xs
    by (induction xs) simp_all
  ultimately show ?thesis
    using assms(1) by (simp add: linkDependenciesForPackage_def new_events_def)
qed

section \<open>What the installer is asked for\<close>

lemma require_emit [simp]: "fst (require sys file (emit e s)) = fst (require sys file s)"
  by (simp add: require_def split: option.splits)

lemma require_again:
  "fst (require sys q (snd (require sys p s))) = fst (require sys q s)"
  by (cases "cache s p"; cases "load_json sys p (world s)")
     (auto simp: require_def split: option.splits)

lemma require_after_hasMatchingDependency [simp]:
  "fst (require sys q (snd (hasMatchingDependency sys pkg dependency w s))) = fst (require sys q s)"
  by (simp add: require_def split: option.splits)

lemma hasDependencyInstalled_fst:
  "fst (hasDependencyInstalled sys pkg dependency s) =
     (case fst (require sys (path_join sys [nodeModulesLocation pkg, dependency, ''package.json'']) s) of
        None \<Rightarrow> False
      | Some m \<Rightarrow> semver_satisfies sys (manifest_version m)
                   (map_of (allDependencies pkg) dependency))"
proof -
  obtain r s1 where
    "require sys (path_join sys [nodeModulesLocation pkg, dependency, ''package.json'']) s = (r, s1)"
    by (cases "require sys (path_join sys [nodeModulesLocation pkg, dependency, ''package.json'']) s")
  then show ?thesis
    by (simp add: hasDependencyInstalled_def Let_def split: option.splits)
qed

lemma require_after_hasDependencyInstalled [simp]:
  "fst (require sys q (snd (hasDependencyInstalled sys pkg dependency s))) = fst (require sys q s)"
proof -
  let ?p = "path_join sys [nodeModulesLocation pkg, dependency, ''package.json'']"
  obtain r s1 where rq: "require sys ?p s = (r, s1)" by (cases "require sys ?p s")
  have "fst (require sys q s1) = fst (require sys q s)"
    using require_again[of sys q ?p s] rq by simp
  with rq show ?thesis
    by (cases r) (simp_all add: hasDependencyInstalled_def Let_def isCompatableVersion_def)
qed

lemma filter_st_pure:
  assumes "\<And>x s. R s \<Longrightarrow> fst (p x s) = q x \<and> R (snd (p x s))" and "R s"
  shows "fst (filter_st p xs s) = filter q xs \<and> R (snd (filter_st p xs s))"
  using assms(2)
proof (induction xs arbitrary: s)
  case Nil
  then show ?case by simp
next
  case (Cons x xs)
  obtain b s1 where p: "p x s = (b, s1)" by (cases "p x s")
  with assms(1)[OF Cons.prems, of x] have b: "b = q x" and R: "R s1" by simp_all
  obtain ys s2 where f: "filter_st p xs s1 = (ys, s2)" by (cases "filter_st p xs s1")
  with Cons.IH[OF R] have "ys = filter q xs" and "R s2" by simp_all
  with p f b show ?case by simp
qed

text \<open>What the two filters of \<^verbatim>\<open>installExternalPackages\<close> keep.\<close>

lemma externalDependencies_fst:
  "fst (externalDependencies sys cmd pkg s) =
     filter (\<lambda>dependency. \<not> fst (hasDependencyInstalled sys pkg dependency s))
       (filter (\<lambda>dependency.
                  case find (\<lambda>p. name p = dependency) (packages cmd) of
                    None \<Rightarrow> True
                  | Some match \<Rightarrow> \<not> fst (hasMatchingDependency sys pkg match False s))
          (map fst (allDependencies pkg)))"
proof -
  let ?R = "\<lambda>s'. \<forall>q. fst (require sys q s') = fst (require sys q s)"
  let ?p1 = "\<lambda>dependency s0.
                case find (\<lambda>p. name p = dependency) (packages cmd) of
                  None \<Rightarrow> (True, s0)
                | Some match \<Rightarrow>
                    (case hasMatchingDependency sys pkg match False s0 of
                       (b, s1) \<Rightarrow> (\<not> b, s1))"
  let ?q1 = "\<lambda>dependency.
                  case find (\<lambda>p. name p = dependency) (packages cmd) of
                    None \<Rightarrow> True
                  | Some match \<Rightarrow> \<not> fst (hasMatchingDependency sys pkg match False s)"
  let ?p2 = "\<lambda>dependency s0.
               case hasDependencyInstalled sys pkg dependency s0 of (b, s2) \<Rightarrow> (\<not> b, s2)"
  let ?q2 = "\<lambda>dependency. \<not> fst (hasDependencyInstalled sys pkg dependency s)"
  have step1: "fst (?p1 x s0) = ?q1 x \<and> ?R (snd (?p1 x s0))" if "?R s0" for x s0
  proof (cases "find (\<lambda>p. name p = x) (packages cmd)")
    case None
    with that show ?thesis by simp
  next
    case (Some m)
    obtain b s1 where h: "hasMatchingDependency sys pkg m False s0 = (b, s1)"
      by (cases "hasMatchingDependency sys pkg m False s0")
    have "b = fst (hasMatchingDependency sys pkg m False s)"
      using h hasMatchingDependency_fst[of sys pkg m False s0]
        hasMatchingDependency_fst[of sys pkg m False s] by simp
    moreover have "fst (require sys q s1) = fst (require sys q s)" for q
      using require_after_hasMatchingDependency[of sys q pkg m False s0] h that by simp
    ultimately show ?thesis using Some h by simp
  qed
  have step2: "fst (?p2 x s0) = ?q2 x \<and> ?R (snd (?p2 x s0))" if "?R s0" for x s0
  proof -
    obtain b s1 where h: "hasDependencyInstalled sys pkg x s0 = (b, s1)"
      by (cases "hasDependencyInstalled sys pkg x s0")
    have "b = fst (hasDependencyInstalled sys pkg x s)"
      using h hasDependencyInstalled_fst[of sys pkg x s0]
        hasDependencyInstalled_fst[of sys pkg x s] that by simp
    moreover have "fst (require sys q s1) = fst (require sys q s)" for q
      using require_after_hasDependencyInstalled[of sys q pkg x s0] h that by simp
    ultimately show ?thesis using h by simp
  qed
  obtain ds s1 where f1: "filter_st ?p1 (map fst (allDependencies pkg)) s = (ds, s1)"
    by (cases "filter_st ?p1 (map fst (allDependencies pkg)) s")
  have "?R s" by simp
  from filter_st_pure[of ?R ?p1 ?q1 s "map fst (allDependencies pkg)", OF step1 this] f1
  have ds: "ds = filter ?q1 (map fst (allDependencies pkg))" and R1: "?R s1" by simp_all
  from filter_st_pure[of ?R ?p2 ?q2 s1 ds, OF step2 R1]
  have "fst (filter_st ?p2 ds s1) = filter ?q2 ds" by simp
  with f1 ds show ?thesis by (simp add: externalDependencies_def)
qed

lemma find_distinct_name:
  assumes "distinct (map name pkgs)"
  shows "(find (\<lambda>p. name p = d) pkgs = Some D) = (D \<in> set pkgs \<and> name D = d)"
  using assms
proof (induction pkgs)
  case Nil
  show ?case by simp
next
  case (Cons p ps)
  then show ?case by (cases "name p = d") (auto simp: image_iff)
qed

lemma find_None_name: "(find (\<lambda>p. name p = d) pkgs = None) = (\<forall>D \<in> set pkgs. name D \<noteq> d)"
  by (auto simp: find_None_iff)

section \<open>The pool of pipelines\<close>

declare run_pool.simps [simp del]

lemma first_outcome_append:
  "first_outcome (a @ b) = (if first_outcome a = Done then first_outcome b else first_outcome a)"
  by (induction a rule: first_outcome.induct) simp_all

lemma first_outcome_Done: "(first_outcome outs = Done) = list_all (\<lambda>(p, r). r = Done) outs"
  by (induction outs rule: first_outcome.induct) simp_all

lemma mset_remove_nth:
  "i < length xs \<Longrightarrow> add_mset (xs ! i) (mset (remove_nth i xs)) = mset xs"
proof -
  assume "i < length xs"
  then have "xs = take i xs @ xs ! i # drop (Suc i) xs" by (simp add: id_take_nth_drop)
  then have "mset xs = mset (take i xs @ xs ! i # drop (Suc i) xs)" by simp
  then show ?thesis by (simp add: remove_nth_def)
qed

lemma length_remove_nth: "i < length xs \<Longrightarrow> Suc (length (remove_nth i xs)) = length xs"
  by (simp add: remove_nth_def)

lemma pick_less: "0 < n \<Longrightarrow> pick sched n < n"
  by (simp add: pick_def split: list.splits)

lemma replay_append:
  "replay f (xs @ ys) s =
     (case replay f xs s of
        (o1, s1) \<Rightarrow> (case replay f ys s1 of (o2, s2) \<Rightarrow> (o1 @ o2, s2)))"
  by (induction xs arbitrary: s) (simp_all split: prod.splits)

lemma replay_snoc:
  assumes "replay f (map fst outs) s0 = (outs, s)" and "f x s = (ro, s1)"
  shows "replay f (map fst (outs @ [(x, ro)])) s0 = (outs @ [(x, ro)], s1)"
  using assms by (simp add: replay_append)

text \<open>
  The packages whose pipelines have been started, when the pool is full or nothing is
  pending: as many as the limit, and one more for each pipeline that has ended.
\<close>

lemma started_take:
  assumes ms: "mset a + mset running = mset (take k tasks)"
    and le: "length running \<le> limit"
    and full: "drop k tasks = [] \<or> length running = limit"
  shows "take k tasks = take (limit + length a) tasks"
proof -
  have "size (mset a + mset running) = size (mset (take k tasks))" by (simp only: ms)
  then have sz: "length a + length running = min (length tasks) k" by simp
  from full show ?thesis
  proof
    assume "drop k tasks = []"
    then have k: "length tasks \<le> k" by simp
    with sz le have "length tasks \<le> limit + length a" by simp
    with k show ?thesis by simp
  next
    assume "length running = limit"
    with sz have eq: "min (length tasks) k = limit + length a" by simp
    show ?thesis
    proof (cases "k \<le> length tasks")
      case True
      with eq show ?thesis by simp
    next
      case False
      with eq have "length tasks = limit + length a" "length tasks \<le> k" by simp_all
      then show ?thesis by simp
    qed
  qed
qed

lemma takeWhile_Done_all:
  "list_all (\<lambda>(p, ro). ro = Done) outs \<Longrightarrow>
   length (takeWhile (\<lambda>(p, ro). ro = Done) (outs @ [(x, r)])) =
     length outs + (if r = Done then 1 else 0)"
  by (induction outs) auto

lemma takeWhile_Done_some:
  "\<not> list_all (\<lambda>(p, ro). ro = Done) outs \<Longrightarrow>
   takeWhile (\<lambda>(p, ro). ro = Done) (outs @ rest) = takeWhile (\<lambda>(p, ro). ro = Done) outs"
  by (induction outs) auto

lemma takeWhile_Done_id:
  "list_all (\<lambda>(p, ro). ro = Done) outs \<Longrightarrow>
   length (takeWhile (\<lambda>(p, ro). ro = Done) outs) = length outs"
  by (induction outs) auto

text \<open>
  The run of the pool. The pipelines that end are those that were started: the first
  \<open>limit\<close> packages, and one more for each pipeline that ended with success before the first
  that did not. The outcomes and the final state are those of the pipelines run one after the
  other in the order in which they ended.
\<close>

lemma run_pool_run:
  assumes "0 < limit"
  shows "run_pool f limit sched pending running failure outs s = (r, outs', s') \<Longrightarrow>
         pending = drop k tasks \<Longrightarrow>
         mset (map fst outs) + mset running = mset (take k tasks) \<Longrightarrow>
         length running \<le> limit \<Longrightarrow>
         (failure = None \<longrightarrow>
            list_all (\<lambda>(p, ro). ro = Done) outs \<and> (pending = [] \<or> length running = limit)) \<Longrightarrow>
         (failure \<noteq> None \<longrightarrow>
            take k tasks =
              take (limit + length (takeWhile (\<lambda>(p, ro). ro = Done) outs)) tasks) \<Longrightarrow>
         callback failure = first_outcome outs \<Longrightarrow>
         replay f (map fst outs) s0 = (outs, s) \<Longrightarrow>
         Thrown \<notin> snd ` set outs \<Longrightarrow>
         (r = Thrown) = (Thrown \<in> snd ` set outs') \<and>
         (r \<noteq> Thrown \<longrightarrow>
            r = first_outcome outs' \<and>
            mset (map fst outs') =
              mset (take (limit + length (takeWhile (\<lambda>(p, ro). ro = Done) outs')) tasks)) \<and>
         mset (map fst outs') \<subseteq>#
           mset (take (limit + length (takeWhile (\<lambda>(p, ro). ro = Done) outs')) tasks) \<and>
         (r = Done \<longrightarrow> mset (map fst outs') = mset tasks) \<and>
         replay f (map fst outs') s0 = (outs', s')"
proof (induction "length pending + length running"
        arbitrary: sched pending running failure outs s k rule: less_induct)
  case less
  note run = less.prems(1) and pend = less.prems(2) and ms = less.prems(3)
    and le = less.prems(4) and inv1 = less.prems(5) and inv2 = less.prems(6)
    and cb = less.prems(7) and rp = less.prems(8) and th = less.prems(9)
  let ?J = "\<lambda>os :: ('a \<times> result) list. length (takeWhile (\<lambda>(p, ro). ro = Done) os)"
  have notall: "\<not> list_all (\<lambda>(p, ro). ro = Done) outs" if "failure \<noteq> None"
  proof -
    from that obtain e0 where "failure = Some e0" by auto
    with cb[symmetric] have "first_outcome outs \<noteq> Done" by simp
    then show ?thesis by (simp add: first_outcome_Done)
  qed
  have started: "take k tasks = take (limit + length outs) tasks" if "failure = None"
  proof -
    from that inv1 pend have "drop k tasks = [] \<or> length running = limit" by auto
    from started_take[OF ms le this] show ?thesis by simp
  qed
  show ?case
  proof (cases "running = []")
    case True
    with run have r: "r = callback failure" and o: "outs' = outs" and s: "s' = s"
      by (simp_all add: run_pool.simps[of f limit sched pending "[]"])
    from ms True have m: "mset (map fst outs) = mset (take k tasks)" by simp
    have j: "take k tasks = take (limit + ?J outs) tasks"
    proof (cases failure)
      case None
      with inv1 have "list_all (\<lambda>(p, ro). ro = Done) outs" by simp
      then have "?J outs = length outs" by (rule takeWhile_Done_id)
      with started[OF None] show ?thesis by simp
    next
      case (Some e0)
      with inv2 show ?thesis by simp
    qed
    have all: "mset (map fst outs) = mset tasks" if "r = Done"
    proof -
      from that r have "failure = None" by simp
      with inv1 True assms have "pending = []" by auto
      with pend have "take k tasks = tasks" by simp
      with m show ?thesis by simp
    qed
    have a1: "(r = Thrown) = (Thrown \<in> snd ` set outs')" using r o th by simp
    have a2: "r = first_outcome outs'" using r o cb by simp
    have a3: "mset (map fst outs') = mset (take (limit + ?J outs') tasks)"
      using m j o by simp
    have a4: "mset (map fst outs') \<subseteq># mset (take (limit + ?J outs') tasks)"
      using a3 by simp
    have a5: "r = Done \<longrightarrow> mset (map fst outs') = mset tasks" using all o by simp
    have a6: "replay f (map fst outs') s0 = (outs', s')" using rp o s by simp
    from a1 a2 a3 a4 a5 a6 show ?thesis by blast
  next
    case False
    define i where "i = pick sched (length running)"
    define x where "x = running ! i"
    define others where "others = remove_nth i running"
    have i: "i < length running" using False by (simp add: i_def pick_less)
    have mr: "add_mset x (mset others) = mset running"
      using mset_remove_nth[OF i] by (simp add: x_def others_def)
    have lr: "Suc (length others) = length running"
      using length_remove_nth[OF i] by (simp add: others_def)
    have le': "length others \<le> limit" using lr le by simp
    obtain ro s1 where fx: "f x s = (ro, s1)" by (cases "f x s")
    have rp': "replay f (map fst (outs @ [(x, ro)])) s0 = (outs @ [(x, ro)], s1)"
      by (rule replay_snoc[OF rp fx])
    have j': "take k tasks = take (limit + ?J (outs @ [(x, ro)])) tasks" if "ro \<noteq> Done"
    proof (cases failure)
      case None
      with inv1 have "list_all (\<lambda>(p, ro). ro = Done) outs" by simp
      from takeWhile_Done_all[OF this, of x ro] that
      have "?J (outs @ [(x, ro)]) = length outs" by simp
      with started[OF None] show ?thesis by simp
    next
      case (Some e0)
      then have "failure \<noteq> None" by simp
      from takeWhile_Done_some[OF notall[OF this], of "[(x, ro)]"] inv2 Some
      show ?thesis by simp
    qed
    show ?thesis
    proof (cases ro)
      case Thrown
      with run False fx have r: "r = Thrown" and o: "outs' = outs @ [(x, Thrown)]"
        and s: "s' = s1"
        by (simp_all add: run_pool.simps[of f limit sched pending running] Let_def
              i_def[symmetric] x_def[symmetric])
      have sub: "mset (map fst outs') \<subseteq># mset (take k tasks)"
      proof -
        have "mset (map fst outs') \<subseteq># mset (map fst outs) + mset running"
          using mr[symmetric] o by simp
        with ms show ?thesis by simp
      qed
      have a1: "(r = Thrown) = (Thrown \<in> snd ` set outs')" using r o by simp
      have a4: "mset (map fst outs') \<subseteq># mset (take (limit + ?J outs') tasks)"
        using sub j' Thrown o by simp
      have a6: "replay f (map fst outs') s0 = (outs', s')" using rp' Thrown o s by simp
      from a1 a4 a6 r show ?thesis by simp
    next
      case (Failed e)
      let ?failure = "case failure of None \<Rightarrow> Some e | Some e0 \<Rightarrow> Some e0"
      let ?outs = "outs @ [(x, Failed e)]"
      have step: "run_pool f limit (tl sched) pending others ?failure ?outs s1 = (r, outs', s')"
        using run False fx Failed
        by (simp add: run_pool.simps[of f limit sched pending running] Let_def
              i_def[symmetric] x_def[symmetric] others_def[symmetric])
      have a: "length pending + length others < length pending + length running"
        using lr by simp
      have b: "mset (map fst ?outs) + mset others = mset (take k tasks)"
        using ms mr[symmetric] by simp
      have c1: "?failure = None \<longrightarrow>
                  list_all (\<lambda>(p, ro). ro = Done) ?outs \<and> (pending = [] \<or> length others = limit)"
        by (simp split: option.splits)
      have c2: "?failure \<noteq> None \<longrightarrow> take k tasks = take (limit + ?J ?outs) tasks"
        using j' Failed by simp
      have d: "callback ?failure = first_outcome ?outs"
        using cb[symmetric] by (cases failure) (simp_all add: first_outcome_append)
      have rp2: "replay f (map fst ?outs) s0 = (?outs, s1)" using rp' Failed by simp
      have th2: "Thrown \<notin> snd ` set ?outs" using th by simp
      show ?thesis by (rule less.hyps[OF a step pend b le' c1 c2 d rp2 th2])
    next
      case Done
      let ?outs = "outs @ [(x, Done)]"
      have rp2: "replay f (map fst ?outs) s0 = (?outs, s1)" using rp' Done by simp
      have th2: "Thrown \<notin> snd ` set ?outs" using th by simp
      show ?thesis
      proof (cases failure)
        case (Some e0)
        have step: "run_pool f limit (tl sched) pending others failure ?outs s1 = (r, outs', s')"
          using run False fx Done Some
          by (simp add: run_pool.simps[of f limit sched pending running] Let_def
                i_def[symmetric] x_def[symmetric] others_def[symmetric])
        have a: "length pending + length others < length pending + length running"
          using lr by simp
        have b: "mset (map fst ?outs) + mset others = mset (take k tasks)"
          using ms mr[symmetric] by simp
        have c1: "failure = None \<longrightarrow>
                    list_all (\<lambda>(p, ro). ro = Done) ?outs \<and> (pending = [] \<or> length others = limit)"
          using Some by simp
        have ne: "failure \<noteq> None" using Some by simp
        have c2: "failure \<noteq> None \<longrightarrow> take k tasks = take (limit + ?J ?outs) tasks"
          using takeWhile_Done_some[OF notall[OF ne], of "[(x, Done)]"] inv2 by simp
        have d: "callback failure = first_outcome ?outs"
          using cb[symmetric] Some by (simp add: first_outcome_append)
        show ?thesis by (rule less.hyps[OF a step pend b le' c1 c2 d rp2 th2])
      next
        case None
        define n where "n = limit - length others"
        let ?pending = "drop n pending"
        let ?running = "others @ take n pending"
        have step: "run_pool f limit (tl sched) ?pending ?running None ?outs s1 = (r, outs', s')"
          using run False fx Done None
          by (simp add: run_pool.simps[of f limit sched pending running] Let_def
                i_def[symmetric] x_def[symmetric] others_def[symmetric] n_def[symmetric])
        have a: "length ?pending + length ?running < length pending + length running"
          using lr by (simp add: min_def)
        have p: "?pending = drop (k + n) tasks"
          using pend by (simp add: add.commute)
        have b: "mset (map fst ?outs) + mset ?running = mset (take (k + n) tasks)"
        proof -
          have e1: "mset (take (k + n) tasks) = mset (take k tasks) + mset (take n (drop k tasks))"
            by (simp add: take_add)
          have "mset (map fst ?outs) + mset ?running =
                           (mset (map fst outs) + mset running) + mset (take n pending)"
            using mr[symmetric] by simp
          also have "\<dots> = mset (take k tasks) + mset (take n (drop k tasks))"
            by (simp only: ms pend)
          also have "\<dots> = mset (take (k + n) tasks)"
            by (simp only: e1)
          finally show ?thesis .
        qed
        have le2: "length ?running \<le> limit" using le' by (simp add: n_def)
        have alld: "list_all (\<lambda>(p, ro). ro = Done) ?outs" using inv1 None by simp
        have full: "?pending = [] \<or> length ?running = limit"
        proof (cases "n \<le> length pending")
          case True
          then have "length ?running = length others + n" by simp
          with le' show ?thesis by (simp add: n_def)
        next
          case False
          then show ?thesis by simp
        qed
        have c1: "(None :: error option) = None \<longrightarrow>
                    list_all (\<lambda>(p, ro). ro = Done) ?outs \<and>
                    (?pending = [] \<or> length ?running = limit)"
          using alld full by simp
        have c2: "(None :: error option) \<noteq> None \<longrightarrow>
                    take (k + n) tasks = take (limit + ?J ?outs) tasks"
          by simp
        have d: "callback None = first_outcome ?outs"
          using cb[symmetric] None by (simp add: first_outcome_append)
        show ?thesis by (rule less.hyps[OF a step p b le2 c1 c2 d rp2 th2])
      qed
    qed
  qed
qed

lemma parallelLimit_run:
  assumes run: "parallelLimit tasks f limit sched s = (r, outs, s')" and pos: "0 < limit"
  shows "(r = Thrown) = (Thrown \<in> snd ` set outs) \<and>
         (r \<noteq> Thrown \<longrightarrow>
            r = first_outcome outs \<and>
            mset (map fst outs) =
              mset (take (limit + length (takeWhile (\<lambda>(p, ro). ro = Done) outs)) tasks)) \<and>
         mset (map fst outs) \<subseteq>#
           mset (take (limit + length (takeWhile (\<lambda>(p, ro). ro = Done) outs)) tasks) \<and>
         (r = Done \<longrightarrow> mset (map fst outs) = mset tasks) \<and>
         replay f (map fst outs) s = (outs, s')"
proof -
  have rp: "run_pool f limit sched (drop limit tasks) (take limit tasks) None [] s = (r, outs, s')"
    using run pos by (simp add: parallelLimit_def)
  have ms: "mset (map fst ([] :: ('a \<times> result) list)) + mset (take limit tasks)
              = mset (take limit tasks)"
    by simp
  have le: "length (take limit tasks) \<le> limit" by simp
  have inv1: "(None :: error option) = None \<longrightarrow>
                list_all (\<lambda>(p, ro). ro = Done) ([] :: ('a \<times> result) list) \<and>
                (drop limit tasks = [] \<or> length (take limit tasks) = limit)"
    by (cases "length tasks \<le> limit") simp_all
  have inv2: "(None :: error option) \<noteq> None \<longrightarrow>
                take limit tasks =
                  take (limit + length (takeWhile (\<lambda>(p, ro). ro = Done)
                                          ([] :: ('a \<times> result) list))) tasks"
    by simp
  have cb: "callback None = first_outcome ([] :: ('a \<times> result) list)" by simp
  have rp0: "replay f (map fst ([] :: ('a \<times> result) list)) s = ([], s)" by simp
  have th: "Thrown \<notin> snd ` set ([] :: ('a \<times> result) list)" by simp
  show ?thesis by (rule run_pool_run[OF pos rp refl ms le inv1 inv2 cb rp0 th])
qed

section \<open>The string literal of a proxy file\<close>

lemma unhex_hexdigit: "k < 16 \<Longrightarrow> unhex (hexdigit k) = Some k"
  by (auto simp: unhex_def hexdigit_def Let_def)

lemma unhex_zero: "unhex (CHR ''0'') = Some 0"
  by (simp add: unhex_def)

lemma js_unescape_quote_char:
  "js_unescape (quote_char c @ rest) = map_option ((#) c) (js_unescape rest)"
proof -
  consider (q) "c = dquote \<or> c = bslash"
    | (b) "c = CHR 0x08" | (f) "c = CHR 0x0C" | (n) "c = CHR 0x0A" | (r) "c = CHR 0x0D"
    | (t) "c = CHR 0x09"
    | (u) "c \<noteq> dquote" "c \<noteq> bslash" "c \<noteq> CHR 0x08" "c \<noteq> CHR 0x0C" "c \<noteq> CHR 0x0A"
          "c \<noteq> CHR 0x0D" "c \<noteq> CHR 0x09" "(of_char c :: nat) < 32"
    | (p) "c \<noteq> dquote" "c \<noteq> bslash" "c \<noteq> CHR 0x08" "c \<noteq> CHR 0x0C" "c \<noteq> CHR 0x0A"
          "c \<noteq> CHR 0x0D" "c \<noteq> CHR 0x09" "\<not> (of_char c :: nat) < 32"
    by blast
  then show ?thesis
  proof cases
    case q
    then show ?thesis
      by (auto simp: quote_char_def unescape_char_def dquote_def bslash_def)
  next
    case b
    then show ?thesis by (simp add: quote_char_def unescape_char_def dquote_def bslash_def)
  next
    case f
    then show ?thesis by (simp add: quote_char_def unescape_char_def dquote_def bslash_def)
  next
    case n
    then show ?thesis by (simp add: quote_char_def unescape_char_def dquote_def bslash_def)
  next
    case r
    then show ?thesis by (simp add: quote_char_def unescape_char_def dquote_def bslash_def)
  next
    case t
    then show ?thesis by (simp add: quote_char_def unescape_char_def dquote_def bslash_def)
  next
    case u
    let ?n = "of_char c :: nat"
    have hi: "unhex (hexdigit (?n div 16)) = Some (?n div 16)"
      using u(8) by (intro unhex_hexdigit) simp
    have lo: "unhex (hexdigit (?n mod 16)) = Some (?n mod 16)"
      by (intro unhex_hexdigit) simp
    have val: "((0 * 16 + 0) * 16 + ?n div 16) * 16 + ?n mod 16 = ?n" by simp
    have lt: "?n < 256" using u(8) by simp
    have q: "quote_char c = [bslash, CHR ''u'', CHR ''0'', CHR ''0'',
                             hexdigit (?n div 16), hexdigit (?n mod 16)]"
      using u by (simp add: quote_char_def)
    show ?thesis
      unfolding q using hi lo lt by (simp add: unhex_zero val)
  next
    case p
    then show ?thesis by (simp add: quote_char_def)
  qed
qed

lemma js_unescape_quoted: "js_unescape (concat (map quote_char str)) = Some str"
  by (induction str) (simp_all add: js_unescape_quote_char del: js_unescape.simps(2))

text \<open>
  The string literal that \<^verbatim>\<open>JSON.stringify\<close> writes for a path denotes that path, so the
  statement of a proxy file requires exactly the path it was generated for.
\<close>

lemma strip_prefix_append: "strip_prefix p (p @ str) = Some str"
  by (simp add: strip_prefix_def)

lemma strip_suffix_append: "strip_suffix p (str @ p) = Some str"
  by (simp add: strip_suffix_def)

lemma reexport_target_fileContent:
  "reexport_target (''module.exports = require('' @ JSON_stringify_string target @ '');'')
     = Some target"
proof -
  let ?body = "concat (map quote_char target)"
  have 1: "strip_prefix ''module.exports = require(''
             (''module.exports = require('' @ JSON_stringify_string target @ '');'')
           = Some (JSON_stringify_string target @ '');'')"
    by (rule strip_prefix_append)
  have 2: "strip_suffix '');'' (JSON_stringify_string target @ '');'')
           = Some (JSON_stringify_string target)"
    by (rule strip_suffix_append)
  have "JSON_stringify_string target = [dquote] @ (?body @ [dquote])"
    by (simp add: JSON_stringify_string_def)
  then have 3: "strip_prefix [dquote] (JSON_stringify_string target) = Some (?body @ [dquote])"
    by (simp only: strip_prefix_append)
  have 4: "strip_suffix [dquote] (?body @ [dquote]) = Some ?body"
    by (rule strip_suffix_append)
  show ?thesis
    unfolding reexport_target_def by (simp only: 1 2 3 4 option.case js_unescape_quoted)
qed

section \<open>Linking the files of a sibling\<close>

lemma linkPrefix_configured:
  "linkPrefix cmd = (case linkedFiles_prefix cmd of None \<Rightarrow> [] | Some p \<Rightarrow> p)"
  by (simp add: linkPrefix_def truthy_def toString_def split: option.splits)

lemma globFiles_world [simp]: "world (snd (globFiles sys src pats s)) = world s"
proof (induction pats arbitrary: s)
  case Nil
  show ?case by simp
next
  case (Cons pat pats)
  show ?case
  proof (cases "glob sys pat src (world s)")
    case GlobThrows
    then show ?thesis by simp
  next
    case (GlobError e)
    with Cons[of "emit (Glob pat src (GlobError e)) s"] show ?thesis
      by (auto split: prod.splits)
  next
    case (Matches m)
    with Cons[of "emit (Glob pat src (Matches m)) s"] show ?thesis
      by (auto split: prod.splits)
  qed
qed

text \<open>When every pattern is expanded, the matches are handed on and one call is recorded each.\<close>

lemma globFiles_matches:
  assumes "\<forall>pat \<in> set pats. \<exists>m. glob sys pat src (world s) = Matches m"
  shows "\<exists>s'. globFiles sys src pats s =
            ((Done, map (\<lambda>pat. case glob sys pat src (world s) of Matches m \<Rightarrow> m | _ \<Rightarrow> [])
                      pats), s') \<and>
          log s' = log s @ map (\<lambda>pat. Glob pat src (glob sys pat src (world s))) pats"
  using assms
proof (induction pats arbitrary: s)
  case Nil
  show ?case by simp
next
  case (Cons pat pats)
  obtain m where m: "glob sys pat src (world s) = Matches m" using Cons.prems by auto
  let ?s1 = "emit (Glob pat src (Matches m)) s"
  have "\<forall>p \<in> set pats. \<exists>m. glob sys p src (world ?s1) = Matches m" using Cons.prems by simp
  from Cons.IH[OF this] obtain s' where
    g: "globFiles sys src pats ?s1 =
          ((Done, map (\<lambda>pat. case glob sys pat src (world ?s1) of Matches m \<Rightarrow> m | _ \<Rightarrow> [])
                    pats), s')"
    and l: "log s' = log ?s1 @ map (\<lambda>pat. Glob pat src (glob sys pat src (world ?s1))) pats"
    by blast
  from m g l show ?case by simp
qed

text \<open>The matches are handed on only when every pattern is expanded.\<close>

lemma globFiles_Done:
  "globFiles sys src pats s = ((Done, files), s') \<Longrightarrow>
   (\<forall>pat \<in> set pats. \<exists>m. glob sys pat src (world s) = Matches m)"
proof (induction pats arbitrary: s files s')
  case Nil
  show ?case by simp
next
  case (Cons pat pats)
  show ?case
  proof (cases "glob sys pat src (world s)")
    case GlobThrows
    with Cons.prems show ?thesis by simp
  next
    case (GlobError e)
    with Cons.prems show ?thesis by (simp split: prod.splits if_splits)
  next
    case (Matches m)
    let ?s1 = "emit (Glob pat src (Matches m)) s"
    obtain r ms s2 where g: "globFiles sys src pats ?s1 = ((r, ms), s2)"
      by (cases "globFiles sys src pats ?s1") auto
    with Cons.prems Matches have "r = Done" by simp
    with g Cons.IH[of ?s1 ms s2] have "\<forall>p \<in> set pats. \<exists>m. glob sys p src (world s) = Matches m"
      by simp
    with Matches show ?thesis by simp
  qed
qed

lemma parallel_not_Thrown:
  assumes "\<And>t s. t \<in> set ts \<Longrightarrow> fst (t s) \<noteq> Thrown"
  shows "fst (parallel ts s) \<noteq> Thrown"
  using assms
proof (induction ts arbitrary: s)
  case Nil
  show ?case by simp
next
  case (Cons t ts)
  obtain r s1 where t: "t s = (r, s1)" by (cases "t s")
  obtain r' s2 where p: "parallel ts s1 = (r', s2)" by (cases "parallel ts s1")
  have "r \<noteq> Thrown" using Cons.prems[of t s] t by simp
  moreover have "r' \<noteq> Thrown" using Cons.IH[of s1] Cons.prems p by simp
  ultimately show ?case using t p by (cases r; cases r') simp_all
qed

text \<open>
  Tasks that do not throw are all run by \<^verbatim>\<open>async.parallel\<close>, whatever their results: the events
  of each are part of the record.
\<close>

lemma parallel_runs_all:
  assumes grow: "\<And>t s. t \<in> set ts \<Longrightarrow> \<exists>d. log (snd (t s)) = log s @ d"
    and nt: "\<And>t s. t \<in> set ts \<Longrightarrow> fst (t s) \<noteq> Thrown"
    and mem: "t \<in> set ts"
  shows "\<exists>s0 pre post.
           new_events s (snd (parallel ts s)) = pre @ new_events s0 (snd (t s0)) @ post"
  using assms
proof (induction ts arbitrary: s)
  case Nil
  then show ?case by simp
next
  case (Cons u us)
  obtain r s1 where u: "u s = (r, s1)" by (cases "u s")
  obtain r' s2 where p: "parallel us s1 = (r', s2)" by (cases "parallel us s1")
  have r: "r \<noteq> Thrown" using Cons.prems(2)[of u s] u by simp
  have r': "r' \<noteq> Thrown"
    using parallel_not_Thrown[of us s1] Cons.prems(2) p by simp
  have s2: "snd (parallel (u # us) s) = s2" using u p r r' by (cases r; cases r') simp_all
  obtain d1 where d1: "log s1 = log s @ d1" using Cons.prems(1)[of u s] u by auto
  have grow_us: "\<exists>d. log (snd (parallel us s1)) = log s1 @ d"
  proof -
    have "emits_only (\<lambda>e. True) (parallel us)"
    proof (rule emits_only_parallel)
      fix t assume "t \<in> set us"
      then show "emits_only (\<lambda>e. True) t"
        using Cons.prems(1)[of t] by (intro emits_onlyI) (simp add: list_all_iff)
    qed
    then show ?thesis by (rule emits_onlyE) blast
  qed
  then obtain d2 where d2: "log s2 = log s1 @ d2" using p by auto
  have all: "new_events s s2 = d1 @ d2" using d1 d2 by (simp add: new_events_def)
  show ?case
  proof (cases "t = u")
    case True
    have "new_events s (snd (t s)) = d1" using True u d1 by (simp add: new_events_def)
    with all s2 show ?thesis by (intro exI[of _ s] exI[of _ "[]"] exI[of _ d2]) simp
  next
    case False
    with Cons.prems(3) have "t \<in> set us" by simp
    have "\<exists>s0 pre post.
            new_events s1 (snd (parallel us s1)) = pre @ new_events s0 (snd (t s0)) @ post"
    proof (rule Cons.IH)
      fix v :: "'a task" and sv
      assume "v \<in> set us"
      then have v: "v \<in> set (u # us)" by simp
      show "\<exists>d. log (snd (v sv)) = log sv @ d" by (rule Cons.prems(1)[OF v])
      show "fst (v sv) \<noteq> Thrown" by (rule Cons.prems(2)[OF v])
    qed (rule \<open>t \<in> set us\<close>)
    then obtain s0 pre post where
      "new_events s1 (snd (parallel us s1)) = pre @ new_events s0 (snd (t s0)) @ post"
      by auto
    moreover have "new_events s1 (snd (parallel us s1)) = d2"
      using p d2 by (simp add: new_events_def)
    ultimately have "new_events s s2 = (d1 @ pre) @ new_events s0 (snd (t s0)) @ post"
      using all by simp
    with s2 show ?thesis by metis
  qed
qed

lemma linkFile_not_Thrown: "fst (linkFile sys prefix src dest file s) \<noteq> Thrown"
  by (simp add: linkFile_def Let_def mkdirp_def writeFile_def symlinkFile_def
        split: prod.splits result.splits option.splits)

lemma linkFile_grows: "\<exists>d. log (snd (linkFile sys prefix src dest file s)) = log s @ d"
  by (rule reportsE[OF reports_linkFile]) blast

text \<open>What linking one matched file records: its directory, and then its proxy or its link.\<close>

lemma linkFile_events:
  "\<exists>e1. new_events s (snd (linkFile sys prefix src dest file s)) =
     Mkdirp (path_dirname sys (path_join sys [dest, file])) e1 #
     (case e1 of
        Some e \<Rightarrow> []
      | None \<Rightarrow>
          (if path_extname sys file = ''.js''
           then [WriteFile (path_join sys [dest, file])
                   (fileContent prefix (path_join sys [src, file]))
                   (fst (fs_writeFile sys (path_join sys [dest, file])
                           (fileContent prefix (path_join sys [src, file]))
                           (snd (fs_mkdirp sys (path_dirname sys (path_join sys [dest, file]))
                                   (world s)))))]
           else [Symlink (path_join sys [src, file]) (path_join sys [dest, file])
                   (fst (fs_symlink sys (path_join sys [src, file]) (path_join sys [dest, file])
                           (snd (fs_mkdirp sys (path_dirname sys (path_join sys [dest, file]))
                                   (world s)))))]))"
proof -
  let ?dir = "path_dirname sys (path_join sys [dest, file])"
  obtain e1 w1 where m: "fs_mkdirp sys ?dir (world s) = (e1, w1)"
    by (cases "fs_mkdirp sys ?dir (world s)")
  show ?thesis
  proof (cases e1)
    case (Some e)
    with m show ?thesis
      by (intro exI[of _ "Some e"])
         (simp add: linkFile_def Let_def new_events_def mkdirp_def)
  next
    case None
    show ?thesis
    proof (cases "path_extname sys file = ''.js''")
      case True
      with m None show ?thesis
        by (intro exI[of _ None])
           (simp add: linkFile_def Let_def new_events_def mkdirp_def writeFile_def
              split: prod.splits result.splits)
    next
      case False
      with m None show ?thesis
        by (intro exI[of _ None])
           (simp add: linkFile_def Let_def new_events_def mkdirp_def symlinkFile_def
              split: prod.splits result.splits)
    qed
  qed
qed

text \<open>
  Every file that is handed to \<^verbatim>\<open>async.each\<close> is linked, whatever happens to the others.
\<close>

lemma each_linkFile_runs_all:
  assumes "file \<in> set files"
  shows "\<exists>s0 pre post.
           new_events s (snd (each files (linkFile sys prefix src dest) s)) =
             pre @ new_events s0 (snd (linkFile sys prefix src dest file s0)) @ post"
  unfolding each_def
proof (rule parallel_runs_all)
  show "linkFile sys prefix src dest file \<in> set (map (linkFile sys prefix src dest) files)"
    using assms by simp
next
  fix t :: "'a task" and s1
  assume "t \<in> set (map (linkFile sys prefix src dest) files)"
  then obtain f where t: "t = linkFile sys prefix src dest f" by auto
  show "\<exists>d. log (snd (t s1)) = log s1 @ d" unfolding t by (rule linkFile_grows)
  show "fst (t s1) \<noteq> Thrown" unfolding t by (rule linkFile_not_Thrown)
qed

lemma each_not_Thrown_linkFile:
  "fst (each files (linkFile sys prefix src dest) s) \<noteq> Thrown"
  unfolding each_def
proof (rule parallel_not_Thrown)
  fix t :: "'a task" and s1
  assume "t \<in> set (map (linkFile sys prefix src dest) files)"
  then obtain f where t: "t = linkFile sys prefix src dest f" by auto
  show "fst (t s1) \<noteq> Thrown" unfolding t by (rule linkFile_not_Thrown)
qed

lemma each_linkFile_grows:
  "\<exists>d. log (snd (each files (linkFile sys prefix src dest) s)) = log s @ d"
  by (rule reportsE[OF reports_each[of files "linkFile sys prefix src dest"]])
     (auto simp: reports_linkFile)

text \<open>
  How \<^verbatim>\<open>createLinkedDependencyFiles\<close> proceeds once the manifest is loaded: the state in which
  the two parallel tasks start has the world and the record of the start.
\<close>

lemma createLinkedDependencyFiles_with_unfold:
  assumes rq: "fst (require sys (path_join sys [src, ''package.json'']) s) = Some pkg"
    and pats: "pats = (case manifest_lerna_files pkg of None \<Rightarrow> [] | Some fs \<Rightarrow> fs)
                      @ [manifest_main pkg]"
  shows "\<exists>s2. world s2 = world s \<and> log s2 = log s \<and>
     createLinkedDependencyFiles_with contents sys cmd src dest nm s =
       parallel
         [(\<lambda>s3. case globFiles sys src pats s3 of
                  ((Done, files), s4) \<Rightarrow>
                    each (concat files) (linkFile sys (linkPrefix cmd) src dest) s4
                | ((r, files), s4) \<Rightarrow> (r, s4)),
          writeFile sys (path_join sys [dest, ''package.json'']) (contents nm pkg)] s2"
proof -
  obtain m0 s1 where rq': "require sys (path_join sys [src, ''package.json'']) s = (m0, s1)"
    by (cases "require sys (path_join sys [src, ''package.json'']) s")
  with rq have m0: "m0 = Some pkg" by simp
  have l1: "log s1 = log s"
    using require_log[of sys "path_join sys [src, ''package.json'']" s] rq' by simp
  have w1: "world s1 = world s"
    using require_world[of sys "path_join sys [src, ''package.json'']" s] rq' by simp
  define s2 where
    "s2 = (case manifest_lerna_files pkg of
             None \<Rightarrow> s1
           | Some fs \<Rightarrow>
               s1\<lparr>cache := (cache s1)(path_join sys [src, ''package.json''] \<mapsto>
                             pkg\<lparr>manifest_lerna_files := Some pats\<rparr>)\<rparr>)"
  have eq: "createLinkedDependencyFiles_with contents sys cmd src dest nm s =
       parallel
         [(\<lambda>s3. case globFiles sys src pats s3 of
                  ((Done, files), s4) \<Rightarrow>
                    each (concat files) (linkFile sys (linkPrefix cmd) src dest) s4
                | ((r, files), s4) \<Rightarrow> (r, s4)),
          writeFile sys (path_join sys [dest, ''package.json'']) (contents nm pkg)] s2"
    unfolding createLinkedDependencyFiles_with_def Let_def pats s2_def
    by (simp only: rq'[unfolded m0] prod.case option.case)
  have "world s2 = world s" "log s2 = log s"
    using l1 w1 by (simp_all add: s2_def split: option.splits)
  with eq show ?thesis by blast
qed

text \<open>
  The record of a run of \<^verbatim>\<open>createLinkedDependencyFiles\<close> when the manifest is loaded and every
  pattern is expanded: one call of \<^verbatim>\<open>glob\<close> for every pattern, then what the linking of the
  matched files records, then the writing of the generated \<^verbatim>\<open>package.json\<close>.
\<close>

lemma createLinkedDependencyFiles_with_run:
  assumes rq: "fst (require sys (path_join sys [src, ''package.json'']) s) = Some pkg"
    and pats: "pats = (case manifest_lerna_files pkg of None \<Rightarrow> [] | Some fs \<Rightarrow> fs)
                      @ [manifest_main pkg]"
    and gl: "\<forall>pat \<in> set pats. \<exists>m. glob sys pat src (world s) = Matches m"
  shows "\<exists>s4 err.
     new_events s (snd (createLinkedDependencyFiles_with contents sys cmd src dest nm s)) =
       map (\<lambda>pat. Glob pat src (glob sys pat src (world s))) pats @
       new_events s4
         (snd (each (concat (map (\<lambda>pat. case glob sys pat src (world s) of
                                          Matches m \<Rightarrow> m | _ \<Rightarrow> []) pats))
                 (linkFile sys (linkPrefix cmd) src dest) s4)) @
       [WriteFile (path_join sys [dest, ''package.json'']) (contents nm pkg) err]"
proof -
  let ?files = "concat (map (\<lambda>pat. case glob sys pat src (world s) of
                                     Matches m \<Rightarrow> m | _ \<Rightarrow> []) pats)"
  let ?pj = "path_join sys [dest, ''package.json'']"
  obtain s2 where w2: "world s2 = world s" and l2: "log s2 = log s"
    and eq: "createLinkedDependencyFiles_with contents sys cmd src dest nm s =
       parallel
         [(\<lambda>s3. case globFiles sys src pats s3 of
                  ((Done, files), s4) \<Rightarrow>
                    each (concat files) (linkFile sys (linkPrefix cmd) src dest) s4
                | ((r, files), s4) \<Rightarrow> (r, s4)),
          writeFile sys ?pj (contents nm pkg)] s2"
    using createLinkedDependencyFiles_with_unfold[OF rq pats] by blast
  have "\<forall>pat \<in> set pats. \<exists>m. glob sys pat src (world s2) = Matches m"
    using gl w2 by simp
  from globFiles_matches[OF this] obtain s4 where
    g: "globFiles sys src pats s2 = ((Done, map (\<lambda>pat. case glob sys pat src (world s) of
                                     Matches m \<Rightarrow> m | _ \<Rightarrow> []) pats), s4)"
    and l4: "log s4 = log s @ map (\<lambda>pat. Glob pat src (glob sys pat src (world s))) pats"
    using w2 l2 by auto
  obtain r5 s5 where e: "each ?files (linkFile sys (linkPrefix cmd) src dest) s4 = (r5, s5)"
    by (cases "each ?files (linkFile sys (linkPrefix cmd) src dest) s4")
  have r5: "r5 \<noteq> Thrown"
    using each_not_Thrown_linkFile[of ?files sys "linkPrefix cmd" src dest s4] e by simp
  obtain d5 where l5: "log s5 = log s4 @ d5"
    using each_linkFile_grows[of ?files sys "linkPrefix cmd" src dest s4] e by auto
  obtain err w6 where wf: "fs_writeFile sys ?pj (contents nm pkg) (world s5) = (err, w6)"
    by (cases "fs_writeFile sys ?pj (contents nm pkg) (world s5)")
  have "snd (createLinkedDependencyFiles_with contents sys cmd src dest nm s) =
          emit (WriteFile ?pj (contents nm pkg) err) (s5\<lparr>world := w6\<rparr>)"
    using g e r5 wf by (cases r5; cases err) (simp_all add: eq writeFile_def)
  then have "new_events s (snd (createLinkedDependencyFiles_with contents sys cmd src dest nm s))
      = map (\<lambda>pat. Glob pat src (glob sys pat src (world s))) pats @ d5 @
        [WriteFile ?pj (contents nm pkg) err]"
    using l4 l5 by (simp add: new_events_def)
  moreover have "new_events s4 (snd (each ?files (linkFile sys (linkPrefix cmd) src dest) s4)) = d5"
    using e l5 by (simp add: new_events_def)
  ultimately show ?thesis by blast
qed

text \<open>
  Every matched file is begun, and the generated \<^verbatim>\<open>package.json\<close> is written, whatever the
  results of the operations.
\<close>

lemma createLinkedDependencyFiles_with_file:
  assumes rq: "fst (require sys (path_join sys [src, ''package.json'']) s) = Some pkg"
    and pats: "pats = (case manifest_lerna_files pkg of None \<Rightarrow> [] | Some fs \<Rightarrow> fs)
                      @ [manifest_main pkg]"
    and gl: "\<forall>pat \<in> set pats. \<exists>m. glob sys pat src (world s) = Matches m"
    and pat: "pat \<in> set pats" and m: "glob sys pat src (world s) = Matches m"
    and fl: "file \<in> set m"
  shows "\<exists>s0 pre post.
     new_events s (snd (createLinkedDependencyFiles_with contents sys cmd src dest nm s)) =
       pre @ new_events s0 (snd (linkFile sys (linkPrefix cmd) src dest file s0)) @ post"
proof -
  let ?files = "concat (map (\<lambda>pat. case glob sys pat src (world s) of
                                     Matches m \<Rightarrow> m | _ \<Rightarrow> []) pats)"
  have mem: "file \<in> set ?files"
    using pat m fl by (auto intro!: bexI[of _ pat])
  from createLinkedDependencyFiles_with_run[OF rq pats gl, of contents cmd dest nm]
  obtain s4 err where
    run: "new_events s (snd (createLinkedDependencyFiles_with contents sys cmd src dest nm s)) =
       map (\<lambda>pat. Glob pat src (glob sys pat src (world s))) pats @
       new_events s4 (snd (each ?files (linkFile sys (linkPrefix cmd) src dest) s4)) @
       [WriteFile (path_join sys [dest, ''package.json'']) (contents nm pkg) err]"
    by blast
  from each_linkFile_runs_all[OF mem, of s4 sys "linkPrefix cmd" src dest]
  obtain s0 pre post where
    "new_events s4 (snd (each ?files (linkFile sys (linkPrefix cmd) src dest) s4)) =
       pre @ new_events s0 (snd (linkFile sys (linkPrefix cmd) src dest file s0)) @ post"
    by blast
  with run have
    "new_events s (snd (createLinkedDependencyFiles_with contents sys cmd src dest nm s)) =
       (map (\<lambda>pat. Glob pat src (glob sys pat src (world s))) pats @ pre) @
       new_events s0 (snd (linkFile sys (linkPrefix cmd) src dest file s0)) @
       (post @ [WriteFile (path_join sys [dest, ''package.json'']) (contents nm pkg) err])"
    by simp
  then show ?thesis by blast
qed

text \<open>
  A matched file is linked: unless its directory could not be made, its proxy is written when
  its extension is \<^verbatim>\<open>.js\<close>, and its symbolic link is created when it is not.
\<close>

lemma createLinkedDependencyFiles_with_linked:
  assumes rq: "fst (require sys (path_join sys [src, ''package.json'']) s) = Some pkg"
    and pats: "pats = (case manifest_lerna_files pkg of None \<Rightarrow> [] | Some fs \<Rightarrow> fs)
                      @ [manifest_main pkg]"
    and gl: "\<forall>pat \<in> set pats. \<exists>m. glob sys pat src (world s) = Matches m"
    and pat: "pat \<in> set pats" and m: "glob sys pat src (world s) = Matches m"
    and fl: "file \<in> set m"
    and d: "d = new_events s (snd (createLinkedDependencyFiles_with contents sys cmd src dest nm s))"
  shows "(\<exists>err. Mkdirp (path_dirname sys (path_join sys [dest, file])) err \<in> set d) \<and>
     ((\<exists>e. Mkdirp (path_dirname sys (path_join sys [dest, file])) (Some e) \<in> set d) \<or>
      (if path_extname sys file = ''.js''
       then \<exists>err. WriteFile (path_join sys [dest, file])
                    (fileContent (linkPrefix cmd) (path_join sys [src, file])) err \<in> set d
       else \<exists>err. Symlink (path_join sys [src, file]) (path_join sys [dest, file]) err \<in> set d))"
proof -
  from createLinkedDependencyFiles_with_file[OF rq pats gl pat m fl, of contents cmd dest nm]
  obtain s0 pre post where
    run: "d = pre @ new_events s0 (snd (linkFile sys (linkPrefix cmd) src dest file s0)) @ post"
    unfolding d by blast
  from linkFile_events[of s0 sys "linkPrefix cmd" src dest "file"]
  obtain e1 where
    ev: "new_events s0 (snd (linkFile sys (linkPrefix cmd) src dest file s0)) =
     Mkdirp (path_dirname sys (path_join sys [dest, file])) e1 #
     (case e1 of
        Some e \<Rightarrow> []
      | None \<Rightarrow>
          (if path_extname sys file = ''.js''
           then [WriteFile (path_join sys [dest, file])
                   (fileContent (linkPrefix cmd) (path_join sys [src, file]))
                   (fst (fs_writeFile sys (path_join sys [dest, file])
                           (fileContent (linkPrefix cmd) (path_join sys [src, file]))
                           (snd (fs_mkdirp sys (path_dirname sys (path_join sys [dest, file]))
                                   (world s0)))))]
           else [Symlink (path_join sys [src, file]) (path_join sys [dest, file])
                   (fst (fs_symlink sys (path_join sys [src, file]) (path_join sys [dest, file])
                           (snd (fs_mkdirp sys (path_dirname sys (path_join sys [dest, file]))
                                   (world s0)))))]))"
    by blast
  show ?thesis
  proof (cases e1)
    case (Some e)
    with run ev show ?thesis by auto
  next
    case None
    with run ev show ?thesis by (cases "path_extname sys file = ''.js''") auto
  qed
qed


lemma matched_fileE:
  assumes "x \<in> set (concat (map (\<lambda>pat. case glob sys pat src w of
                                          Matches m \<Rightarrow> m | _ \<Rightarrow> []) pats))"
  obtains pat m where "pat \<in> set pats" and "glob sys pat src w = Matches m" and "x \<in> set m"
proof -
  from assms obtain pat where p: "pat \<in> set pats"
    and x: "x \<in> set (case glob sys pat src w of Matches m \<Rightarrow> m | _ \<Rightarrow> [])"
    by auto
  from x obtain m where "glob sys pat src w = Matches m" "x \<in> set m"
    by (cases "glob sys pat src w") simp_all
  with p that show thesis by blast
qed

text \<open>
  Nothing but the matched files is linked: every file written, the generated \<^verbatim>\<open>package.json\<close>
  apart, is the proxy of a matched file with the extension \<^verbatim>\<open>.js\<close>, and every symbolic link
  is that of a matched file with another extension.
\<close>

lemma createLinkedDependencyFiles_with_only:
  assumes rq: "fst (require sys (path_join sys [src, ''package.json'']) s) = Some pkg"
    and pats: "pats = (case manifest_lerna_files pkg of None \<Rightarrow> [] | Some fs \<Rightarrow> fs)
                      @ [manifest_main pkg]"
  shows "list_all
     (\<lambda>e. case e of
        Glob f c rep \<Rightarrow> True
      | Mkdirp p err \<Rightarrow> True
      | WriteFile p c err \<Rightarrow>
          (p = path_join sys [dest, ''package.json''] \<and> c = contents nm pkg) \<or>
          (\<exists>pat \<in> set pats. \<exists>m. glob sys pat src (world s) = Matches m \<and>
             (\<exists>f \<in> set m. path_extname sys f = ''.js'' \<and> p = path_join sys [dest, f] \<and>
                c = fileContent (linkPrefix cmd) (path_join sys [src, f])))
      | Symlink a b err \<Rightarrow>
          (\<exists>pat \<in> set pats. \<exists>m. glob sys pat src (world s) = Matches m \<and>
             (\<exists>f \<in> set m. path_extname sys f \<noteq> ''.js'' \<and> a = path_join sys [src, f] \<and>
                b = path_join sys [dest, f]))
      | _ \<Rightarrow> False)
     (new_events s (snd (createLinkedDependencyFiles_with contents sys cmd src dest nm s)))"
proof -
  define Q where "Q = (\<lambda>e. case e of
        Glob f c rep \<Rightarrow> True
      | Mkdirp p err \<Rightarrow> True
      | WriteFile p c err \<Rightarrow>
          (p = path_join sys [dest, ''package.json''] \<and> c = contents nm pkg) \<or>
          (\<exists>pat \<in> set pats. \<exists>m. glob sys pat src (world s) = Matches m \<and>
             (\<exists>f \<in> set m. path_extname sys f = ''.js'' \<and> p = path_join sys [dest, f] \<and>
                c = fileContent (linkPrefix cmd) (path_join sys [src, f])))
      | Symlink a b err \<Rightarrow>
          (\<exists>pat \<in> set pats. \<exists>m. glob sys pat src (world s) = Matches m \<and>
             (\<exists>f \<in> set m. path_extname sys f \<noteq> ''.js'' \<and> a = path_join sys [src, f] \<and>
                b = path_join sys [dest, f]))
      | _ \<Rightarrow> False)"
  let ?pj = "path_join sys [dest, ''package.json'']"
  let ?c = "createLinkedDependencyFiles_with contents sys cmd src dest nm"
  have Qglob: "Q (Glob f src r)" for f r by (simp add: Q_def)
  have Qmk: "Q (Mkdirp p err)" for p err by (simp add: Q_def)
  have Qpj: "Q (WriteFile ?pj (contents nm pkg) err)" for err by (simp add: Q_def)
  obtain s2 where w2: "world s2 = world s" and l2: "log s2 = log s"
    and eq: "?c s =
       parallel
         [(\<lambda>s3. case globFiles sys src pats s3 of
                  ((Done, files), s4) \<Rightarrow>
                    each (concat files) (linkFile sys (linkPrefix cmd) src dest) s4
                | ((r, files), s4) \<Rightarrow> (r, s4)),
          writeFile sys ?pj (contents nm pkg)] s2"
    using createLinkedDependencyFiles_with_unfold[OF rq pats] by blast
  obtain r files s4 where g: "globFiles sys src pats s2 = ((r, files), s4)"
    by (cases "globFiles sys src pats s2") auto
  obtain d1 where d1: "log s4 = log s @ d1" and q1: "list_all Q d1"
    using globFiles_emits_only[of Q src sys pats s2] Qglob g l2 by auto
  have "list_all Q (new_events s (snd (?c s)))"
  proof (cases "r = Done")
    case True
    have gl: "\<forall>pat \<in> set pats. \<exists>m. glob sys pat src (world s) = Matches m"
      using globFiles_Done[OF g[unfolded True]] w2 by simp
    let ?files = "concat (map (\<lambda>pat. case glob sys pat src (world s) of
                                       Matches m \<Rightarrow> m | _ \<Rightarrow> []) pats)"
    from createLinkedDependencyFiles_with_run[OF rq pats gl, of contents cmd dest nm]
    obtain s5 err where
      run: "new_events s (snd (?c s)) =
         map (\<lambda>pat. Glob pat src (glob sys pat src (world s))) pats @
         new_events s5 (snd (each ?files (linkFile sys (linkPrefix cmd) src dest) s5)) @
         [WriteFile ?pj (contents nm pkg) err]"
      by blast
    have a: "list_all Q (map (\<lambda>pat. Glob pat src (glob sys pat src (world s))) pats)"
      by (simp add: list_all_iff Qglob)
    have "emits_only Q (each ?files (linkFile sys (linkPrefix cmd) src dest))"
    proof (rule emits_only_each, rule emits_only_linkFile)
      fix x p err
      show "Q (Mkdirp p err)" by (rule Qmk)
    next
      fix x err
      assume x: "x \<in> set ?files" and js: "path_extname sys x = ''.js''"
      from x obtain pat m where "pat \<in> set pats" "glob sys pat src (world s) = Matches m"
        "x \<in> set m"
        by (rule matched_fileE)
      with js show "Q (WriteFile (path_join sys [dest, x])
                      (fileContent (linkPrefix cmd) (path_join sys [src, x])) err)"
        unfolding Q_def by auto
    next
      fix x err
      assume x: "x \<in> set ?files" and js: "path_extname sys x \<noteq> ''.js''"
      from x obtain pat m where "pat \<in> set pats" "glob sys pat src (world s) = Matches m"
        "x \<in> set m"
        by (rule matched_fileE)
      with js show "Q (Symlink (path_join sys [src, x]) (path_join sys [dest, x]) err)"
        unfolding Q_def by auto
    qed
    then have b: "list_all Q
        (new_events s5 (snd (each ?files (linkFile sys (linkPrefix cmd) src dest) s5)))"
      by (rule emits_only_new_events) (rule surjective_pairing)
    from a b Qpj show ?thesis unfolding run by simp
  next
    case False
    show ?thesis
    proof (cases "r = Thrown")
      case True
      with g have "snd (?c s) = s4" by (simp add: eq)
      with d1 q1 show ?thesis by (simp add: new_events_def)
    next
      case nt: False
      obtain err w6 where wf: "fs_writeFile sys ?pj (contents nm pkg) (world s4) = (err, w6)"
        by (cases "fs_writeFile sys ?pj (contents nm pkg) (world s4)")
      from False nt obtain e where r: "r = Failed e" by (cases r) simp_all
      have "snd (?c s) = emit (WriteFile ?pj (contents nm pkg) err) (s4\<lparr>world := w6\<rparr>)"
        using g r wf by (cases err) (simp_all add: eq writeFile_def)
      with d1 q1 Qpj show ?thesis by (simp add: new_events_def)
    qed
  qed
  then show ?thesis unfolding Q_def .
qed

text \<open>
  C7. When the manifest of the sibling is loaded and every pattern is expanded, every matched
  file with the extension \<^verbatim>\<open>.js\<close> gets its proxy: unless its directory could not be made, the
  file written at the destination has as content the configured prefix (the empty string when
  none is configured) followed by the statement that requires the path of the original file
  under the sibling's location; and that content without the prefix requires exactly that
  path. Conversely every file that is written, the generated \<^verbatim>\<open>package.json\<close> apart, is such
  a proxy of a matched file with the extension \<^verbatim>\<open>.js\<close>.
\<close>

theorem C7_proxy_content:
  fixes sys :: "'w system" and s :: "'w state" and cmd src dest nm pkg
  defines "d \<equiv> new_events s (snd (createLinkedDependencyFiles sys cmd src dest nm s))"
    and "prefix \<equiv> (case linkedFiles_prefix cmd of None \<Rightarrow> [] | Some p \<Rightarrow> p)"
  assumes rq: "fst (require sys (path_join sys [src, ''package.json'']) s) = Some pkg"
  defines "pats \<equiv> (case manifest_lerna_files pkg of None \<Rightarrow> [] | Some fs \<Rightarrow> fs)
                    @ [manifest_main pkg]"
  shows
    "((\<forall>pat \<in> set pats. \<exists>m. glob sys pat src (world s) = Matches m) \<longrightarrow>
      (\<forall>pat \<in> set pats. \<forall>m. glob sys pat src (world s) = Matches m \<longrightarrow>
         (\<forall>file \<in> set m. path_extname sys file = ''.js'' \<longrightarrow>
            ((\<exists>e. Mkdirp (path_dirname sys (path_join sys [dest, file])) (Some e) \<in> set d) \<or>
             (\<exists>err. WriteFile (path_join sys [dest, file])
                      (prefix @ ''module.exports = require(''
                         @ JSON_stringify_string (path_join sys [src, file]) @ '');'') err
                    \<in> set d)) \<and>
            reexport_target
              (drop (length prefix)
                 (prefix @ ''module.exports = require(''
                    @ JSON_stringify_string (path_join sys [src, file]) @ '');''))
              = Some (path_join sys [src, file])))) \<and>
     (\<forall>p c err. WriteFile p c err \<in> set d \<longrightarrow>
        (p = path_join sys [dest, ''package.json''] \<and> c = packageJsonFileContents nm pkg) \<or>
        (\<exists>pat \<in> set pats. \<exists>m. glob sys pat src (world s) = Matches m \<and>
           (\<exists>file \<in> set m. path_extname sys file = ''.js'' \<and>
              p = path_join sys [dest, file] \<and>
              c = prefix @ ''module.exports = require(''
                    @ JSON_stringify_string (path_join sys [src, file]) @ '');'' \<and>
              reexport_target (drop (length prefix) c) = Some (path_join sys [src, file]))))"
proof -
  have pats: "pats = (case manifest_lerna_files pkg of None \<Rightarrow> [] | Some fs \<Rightarrow> fs)
                     @ [manifest_main pkg]"
    by (simp add: pats_def)
  have pre: "linkPrefix cmd = prefix" by (simp add: prefix_def linkPrefix_configured)
  have strip: "reexport_target
           (drop (length prefix)
              (prefix @ ''module.exports = require('' @ JSON_stringify_string target @ '');''))
         = Some target" for target
  proof -
    have "drop (length prefix) (prefix @ rest) = rest" for rest :: string by simp
    then show ?thesis by (simp only: reexport_target_fileContent)
  qed
  have fc: "fileContent (linkPrefix cmd) target =
              prefix @ ''module.exports = require('' @ JSON_stringify_string target @ '');''"
    for target
    by (simp add: fileContent_def pre)
  have fwd: "(\<exists>e. Mkdirp (path_dirname sys (path_join sys [dest, x])) (Some e) \<in> set d) \<or>
             (\<exists>err. WriteFile (path_join sys [dest, x])
                      (prefix @ ''module.exports = require(''
                         @ JSON_stringify_string (path_join sys [src, x]) @ '');'') err
                    \<in> set d)"
    if gl: "\<forall>pat \<in> set pats. \<exists>m. glob sys pat src (world s) = Matches m"
      and pat: "pat \<in> set pats" and m: "glob sys pat src (world s) = Matches m"
      and fl: "x \<in> set m" and js: "path_extname sys x = ''.js''"
    for pat m x
    using createLinkedDependencyFiles_with_linked[OF rq pats gl pat m fl,
        of d packageJsonFileContents cmd dest nm] js
    by (simp add: d_def createLinkedDependencyFiles_def fc)
  have only: "list_all
     (\<lambda>e. case e of
        Glob f c rep \<Rightarrow> True
      | Mkdirp p err \<Rightarrow> True
      | WriteFile p c err \<Rightarrow>
          (p = path_join sys [dest, ''package.json''] \<and> c = packageJsonFileContents nm pkg) \<or>
          (\<exists>pat \<in> set pats. \<exists>m. glob sys pat src (world s) = Matches m \<and>
             (\<exists>f \<in> set m. path_extname sys f = ''.js'' \<and> p = path_join sys [dest, f] \<and>
                c = fileContent (linkPrefix cmd) (path_join sys [src, f])))
      | Symlink a b err \<Rightarrow>
          (\<exists>pat \<in> set pats. \<exists>m. glob sys pat src (world s) = Matches m \<and>
             (\<exists>f \<in> set m. path_extname sys f \<noteq> ''.js'' \<and> a = path_join sys [src, f] \<and>
                b = path_join sys [dest, f]))
      | _ \<Rightarrow> False) d"
    unfolding d_def createLinkedDependencyFiles_def
    by (rule createLinkedDependencyFiles_with_only[OF rq pats])
  have bwd: "(p = path_join sys [dest, ''package.json''] \<and> c = packageJsonFileContents nm pkg) \<or>
        (\<exists>pat \<in> set pats. \<exists>m. glob sys pat src (world s) = Matches m \<and>
           (\<exists>file \<in> set m. path_extname sys file = ''.js'' \<and>
              p = path_join sys [dest, file] \<and>
              c = prefix @ ''module.exports = require(''
                    @ JSON_stringify_string (path_join sys [src, file]) @ '');'' \<and>
              reexport_target (drop (length prefix) c) = Some (path_join sys [src, file])))"
    if "WriteFile p c err \<in> set d" for p c err
  proof -
    from only[unfolded list_all_iff, rule_format, OF that]
    have "(p = path_join sys [dest, ''package.json''] \<and> c = packageJsonFileContents nm pkg) \<or>
          (\<exists>pat \<in> set pats. \<exists>m. glob sys pat src (world s) = Matches m \<and>
             (\<exists>f \<in> set m. path_extname sys f = ''.js'' \<and> p = path_join sys [dest, f] \<and>
                c = fileContent (linkPrefix cmd) (path_join sys [src, f])))"
      by simp
    then show ?thesis using strip unfolding fc by blast
  qed
  from fwd strip bwd show ?thesis by blast
qed

text \<open>
  C10. When the manifest of the sibling is loaded and every pattern is expanded, what is done
  with a matched file depends on its extension only: unless its directory could not be made, a
  file whose extension is \<^verbatim>\<open>.js\<close> gets its proxy written, and a file with any other extension
  gets a symbolic link to the original file; so do the files that the pattern of the main file
  of the sibling matches. Conversely every symbolic link that is created is that of a matched
  file whose extension is not \<^verbatim>\<open>.js\<close>, and every file that is written, the generated
  \<^verbatim>\<open>package.json\<close> apart, is the proxy of a matched file whose extension is \<^verbatim>\<open>.js\<close>.
\<close>

theorem C10_extension_decides:
  fixes sys :: "'w system" and s :: "'w state" and cmd src dest nm pkg
  defines "d \<equiv> new_events s (snd (createLinkedDependencyFiles sys cmd src dest nm s))"
  assumes rq: "fst (require sys (path_join sys [src, ''package.json'']) s) = Some pkg"
  defines "pats \<equiv> (case manifest_lerna_files pkg of None \<Rightarrow> [] | Some fs \<Rightarrow> fs)
                    @ [manifest_main pkg]"
  shows
    "((\<forall>pat \<in> set pats. \<exists>m. glob sys pat src (world s) = Matches m) \<longrightarrow>
      (\<forall>pat \<in> set pats. \<forall>m. glob sys pat src (world s) = Matches m \<longrightarrow>
         (\<forall>file \<in> set m.
            (\<exists>e. Mkdirp (path_dirname sys (path_join sys [dest, file])) (Some e) \<in> set d) \<or>
            (if path_extname sys file = ''.js''
             then \<exists>err. WriteFile (path_join sys [dest, file])
                          (fileContent (linkPrefix cmd) (path_join sys [src, file])) err \<in> set d
             else \<exists>err. Symlink (path_join sys [src, file]) (path_join sys [dest, file]) err
                          \<in> set d))) \<and>
      (\<forall>m. glob sys (manifest_main pkg) src (world s) = Matches m \<longrightarrow>
         (\<forall>file \<in> set m. path_extname sys file \<noteq> ''.js'' \<longrightarrow>
            (\<exists>e. Mkdirp (path_dirname sys (path_join sys [dest, file])) (Some e) \<in> set d) \<or>
            (\<exists>err. Symlink (path_join sys [src, file]) (path_join sys [dest, file]) err
                     \<in> set d)))) \<and>
     (\<forall>a b err. Symlink a b err \<in> set d \<longrightarrow>
        (\<exists>pat \<in> set pats. \<exists>m. glob sys pat src (world s) = Matches m \<and>
           (\<exists>file \<in> set m. path_extname sys file \<noteq> ''.js'' \<and>
              a = path_join sys [src, file] \<and> b = path_join sys [dest, file]))) \<and>
     (\<forall>p c err. WriteFile p c err \<in> set d \<longrightarrow>
        (p = path_join sys [dest, ''package.json''] \<and> c = packageJsonFileContents nm pkg) \<or>
        (\<exists>pat \<in> set pats. \<exists>m. glob sys pat src (world s) = Matches m \<and>
           (\<exists>file \<in> set m. path_extname sys file = ''.js'' \<and>
              p = path_join sys [dest, file] \<and>
              c = fileContent (linkPrefix cmd) (path_join sys [src, file]))))"
proof -
  have pats: "pats = (case manifest_lerna_files pkg of None \<Rightarrow> [] | Some fs \<Rightarrow> fs)
                     @ [manifest_main pkg]"
    by (simp add: pats_def)
  have fwd: "(\<exists>e. Mkdirp (path_dirname sys (path_join sys [dest, x])) (Some e) \<in> set d) \<or>
            (if path_extname sys x = ''.js''
             then \<exists>err. WriteFile (path_join sys [dest, x])
                          (fileContent (linkPrefix cmd) (path_join sys [src, x])) err \<in> set d
             else \<exists>err. Symlink (path_join sys [src, x]) (path_join sys [dest, x]) err
                          \<in> set d)"
    if gl: "\<forall>pat \<in> set pats. \<exists>m. glob sys pat src (world s) = Matches m"
      and pat: "pat \<in> set pats" and m: "glob sys pat src (world s) = Matches m"
      and fl: "x \<in> set m"
    for pat m x
    using createLinkedDependencyFiles_with_linked[OF rq pats gl pat m fl,
        of d packageJsonFileContents cmd dest nm]
    by (simp add: d_def createLinkedDependencyFiles_def)
  have main: "(\<exists>e. Mkdirp (path_dirname sys (path_join sys [dest, x])) (Some e) \<in> set d) \<or>
            (\<exists>err. Symlink (path_join sys [src, x]) (path_join sys [dest, x]) err
                     \<in> set d)"
    if gl: "\<forall>pat \<in> set pats. \<exists>m. glob sys pat src (world s) = Matches m"
      and m: "glob sys (manifest_main pkg) src (world s) = Matches m"
      and fl: "x \<in> set m" and js: "path_extname sys x \<noteq> ''.js''"
    for m x
  proof -
    have "manifest_main pkg \<in> set pats" by (simp add: pats_def)
    from fwd[OF gl this m fl] js show ?thesis by simp
  qed
  have only: "list_all
     (\<lambda>e. case e of
        Glob f c rep \<Rightarrow> True
      | Mkdirp p err \<Rightarrow> True
      | WriteFile p c err \<Rightarrow>
          (p = path_join sys [dest, ''package.json''] \<and> c = packageJsonFileContents nm pkg) \<or>
          (\<exists>pat \<in> set pats. \<exists>m. glob sys pat src (world s) = Matches m \<and>
             (\<exists>f \<in> set m. path_extname sys f = ''.js'' \<and> p = path_join sys [dest, f] \<and>
                c = fileContent (linkPrefix cmd) (path_join sys [src, f])))
      | Symlink a b err \<Rightarrow>
          (\<exists>pat \<in> set pats. \<exists>m. glob sys pat src (world s) = Matches m \<and>
             (\<exists>f \<in> set m. path_extname sys f \<noteq> ''.js'' \<and> a = path_join sys [src, f] \<and>
                b = path_join sys [dest, f]))
      | _ \<Rightarrow> False) d"
    unfolding d_def createLinkedDependencyFiles_def
    by (rule createLinkedDependencyFiles_with_only[OF rq pats])
  have sym: "\<exists>pat \<in> set pats. \<exists>m. glob sys pat src (world s) = Matches m \<and>
           (\<exists>file \<in> set m. path_extname sys file \<noteq> ''.js'' \<and>
              a = path_join sys [src, file] \<and> b = path_join sys [dest, file])"
    if "Symlink a b err \<in> set d" for a b err
    using only[unfolded list_all_iff, rule_format, OF that] by simp
  have wr: "(p = path_join sys [dest, ''package.json''] \<and> c = packageJsonFileContents nm pkg) \<or>
        (\<exists>pat \<in> set pats. \<exists>m. glob sys pat src (world s) = Matches m \<and>
           (\<exists>file \<in> set m. path_extname sys file = ''.js'' \<and>
              p = path_join sys [dest, file] \<and>
              c = fileContent (linkPrefix cmd) (path_join sys [src, file])))"
    if "WriteFile p c err \<in> set d" for p c err
    using only[unfolded list_all_iff, rule_format, OF that] by simp
  from fwd main sym wr show ?thesis by blast
qed


lemma installExternalPackages_not_Thrown: "fst (installExternalPackages sys cmd pkg s) \<noteq> Thrown"
  by (simp add: installExternalPackages_def installInDir_def Let_def split: prod.splits)

lemma createLinkedDependencyFiles_Thrown:
  "fst (require sys (path_join sys [src, ''package.json'']) s) = None \<Longrightarrow>
   fst (createLinkedDependencyFiles sys cmd src dest nm s) = Thrown"
  by (cases "require sys (path_join sys [src, ''package.json'']) s")
     (simp add: createLinkedDependencyFiles_def createLinkedDependencyFiles_with_def Let_def)

text \<open>
  C5, as the code has it. A manifest of an installed copy that cannot be loaded is not fatal:
  \<^verbatim>\<open>hasDependencyInstalled\<close> answers false, and \<^verbatim>\<open>installExternalPackages\<close> never ends with an
  uncaught exception. The manifest of the sibling being linked is loaded without a handler: when
  it cannot be loaded, the exception leaves \<^verbatim>\<open>createLinkedDependencyFiles\<close>.
\<close>

theorem C5_manifest_failures:
  "(fst (require sys (path_join sys [nodeModulesLocation pkg, dependency, ''package.json'']) s)
      = None \<longrightarrow>
    \<not> fst (hasDependencyInstalled sys pkg dependency s)) \<and>
   fst (installExternalPackages sys cmd pkg s) \<noteq> Thrown \<and>
   (fst (require sys (path_join sys [src, ''package.json'']) s) = None \<longrightarrow>
    fst (createLinkedDependencyFiles sys cmd src dest nm s) = Thrown)"
  using installExternalPackages_not_Thrown[of sys cmd pkg s]
    createLinkedDependencyFiles_Thrown[of sys src s cmd dest nm]
  by (simp add: hasDependencyInstalled_fst)

section \<open>Which siblings are linked and which dependencies are installed\<close>

lemma hasMatchingDependency_iff:
  "fst (hasMatchingDependency sys pkg dependency showWarning s) =
     (\<exists>rng. map_of (allDependencies pkg) (name dependency) = Some rng \<and> rng \<noteq> [] \<and>
            semver_satisfies sys (version dependency) (Some rng))"
  by (cases "map_of (allDependencies pkg) (name dependency)")
     (auto simp: hasMatchingDependency_fst truthy_def)

text \<open>
  A sibling that is declared with a non-empty range which its version does not satisfy is not
  linked: the check is recorded, the warning is logged, and nothing else happens.
\<close>

lemma incompatible_sibling_warned:
  assumes "map_of (allDependencies pkg) (name dependency) = Some rng" and "rng \<noteq> []"
    and "\<not> semver_satisfies sys (version dependency) (Some rng)"
  shows "hasMatchingDependency sys pkg dependency True s =
           (False,
            emit (Warning (mismatchMessage pkg dependency (Some rng) (version dependency)))
              (emit (Satisfies (version dependency) (Some rng)) s))"
  using assms
  by (simp add: hasMatchingDependency_def Let_def truthy_def isCompatableVersion_def)

lemma installExternalPackages_batch:
  "installExternalPackages sys cmd pkg s =
     (case externalDependencies sys cmd pkg s of
        (ds, s1) \<Rightarrow>
          if ds = [] then (Done, s1)
          else installInDir sys (location pkg)
                 (map (\<lambda>dependency.
                         dependency @ ''@'' @ toString (map_of (allDependencies pkg) dependency))
                    ds) s1)"
  by (simp add: installExternalPackages_def Let_def split: prod.splits)

text \<open>
  C3, as the code has it. A declared dependency \<open>d\<close> with a non-empty range is left out of the
  batch of the external installer exactly when a package of the workspace named \<open>d\<close> (the
  package itself included) has a version that satisfies the range, or the manifest of the copy
  under the package's dependency directory can be loaded and its version satisfies the range.
  The names that remain are handed to the installer as \<^verbatim>\<open>name@range\<close>, in one call, and no call
  is made when none remains.
\<close>

theorem C3_external_batch:
  assumes "distinct (map name (packages cmd))"
    and "map_of (allDependencies pkg) d = Some rng" and "rng \<noteq> []"
  shows "(d \<notin> set (fst (externalDependencies sys cmd pkg s))) =
           ((\<exists>D \<in> set (packages cmd).
                name D = d \<and> semver_satisfies sys (version D) (Some rng)) \<or>
            (\<exists>m. fst (require sys
                         (path_join sys [nodeModulesLocation pkg, d, ''package.json'']) s)
                    = Some m \<and>
                 semver_satisfies sys (manifest_version m) (Some rng)))
         \<and> installExternalPackages sys cmd pkg s =
             (case externalDependencies sys cmd pkg s of
                (ds, s1) \<Rightarrow>
                  if ds = [] then (Done, s1)
                  else installInDir sys (location pkg)
                         (map (\<lambda>dependency.
                                 dependency @ ''@'' @
                                 toString (map_of (allDependencies pkg) dependency))
                            ds) s1)"
proof -
  have key: "d \<in> set (map fst (allDependencies pkg))"
    using assms(2) by (metis map_of_SomeD image_eqI fst_conv set_map)
  have sibling:
    "(case find (\<lambda>p. name p = d) (packages cmd) of
        None \<Rightarrow> True
      | Some match \<Rightarrow> \<not> fst (hasMatchingDependency sys pkg match False s)) =
     (\<not> (\<exists>D \<in> set (packages cmd). name D = d \<and> semver_satisfies sys (version D) (Some rng)))"
  proof (cases "find (\<lambda>p. name p = d) (packages cmd)")
    case None
    have nd: "\<forall>D \<in> set (packages cmd). name D \<noteq> d"
      using None by (simp add: find_None_name)
    show ?thesis unfolding None using nd by simp
  next
    case (Some D)
    then have D: "D \<in> set (packages cmd)" "name D = d"
      using find_distinct_name[OF assms(1), of d D] by simp_all
    have uniq: "D' = D" if "D' \<in> set (packages cmd)" "name D' = d" for D'
      using find_distinct_name[OF assms(1), of d D'] that Some by simp
    have e: "fst (hasMatchingDependency sys pkg D False s)
               = semver_satisfies sys (version D) (Some rng)"
      using D(2) assms(2,3) by (simp add: hasMatchingDependency_iff)
    have "(\<exists>D' \<in> set (packages cmd). name D' = d \<and> semver_satisfies sys (version D') (Some rng))
            = semver_satisfies sys (version D) (Some rng)"
      using D uniq by blast
    with e show ?thesis unfolding Some by simp
  qed
  have copy:
    "fst (hasDependencyInstalled sys pkg d s) =
     (\<exists>m. fst (require sys (path_join sys [nodeModulesLocation pkg, d, ''package.json'']) s)
             = Some m \<and>
          semver_satisfies sys (manifest_version m) (Some rng))"
    using assms(2) by (simp add: hasDependencyInstalled_fst split: option.splits)
  show ?thesis
    using key sibling copy
    by (simp add: externalDependencies_fst installExternalPackages_batch[symmetric])
qed

text \<open>
  C4, as the code has it. Provided the names of the packages are distinct, the siblings that
  the linking phase of a package links are distinct, each is linked once, and none of their
  names is in the batch handed to the external installer.
\<close>

theorem C4_linked_once_and_disjoint:
  assumes "distinct (map name (packages cmd))"
    and "linkDependenciesForPackage sys cmd pkg s1 = (r, s2)" and "r \<noteq> Thrown"
  shows "let linked = filter (\<lambda>D. fst (hasMatchingDependency sys pkg D True s1)) (packages cmd)
         in rimraf_paths (new_events s1 s2) =
              map (\<lambda>D. path_join sys [nodeModulesLocation pkg, name D]) linked \<and>
            distinct (map name linked) \<and>
            set (map name linked) \<inter> set (fst (externalDependencies sys cmd pkg s)) = {}"
proof -
  let ?linked = "filter (\<lambda>D. fst (hasMatchingDependency sys pkg D True s1)) (packages cmd)"
  have a: "rimraf_paths (new_events s1 s2) =
             map (\<lambda>D. path_join sys [nodeModulesLocation pkg, name D]) ?linked"
    by (rule linkDependenciesForPackage_targets[OF assms(2,3)])
  have b: "distinct (map name ?linked)"
    using assms(1) by (rule distinct_map_filter)
  have c: "name D \<notin> set (fst (externalDependencies sys cmd pkg s))" if "D \<in> set ?linked" for D
  proof
    assume "name D \<in> set (fst (externalDependencies sys cmd pkg s))"
    then have q: "case find (\<lambda>p. name p = name D) (packages cmd) of
                    None \<Rightarrow> True
                  | Some match \<Rightarrow> \<not> fst (hasMatchingDependency sys pkg match False s)"
      by (simp add: externalDependencies_fst)
    from that have D: "D \<in> set (packages cmd)" "fst (hasMatchingDependency sys pkg D True s1)"
      by simp_all
    from D(1) have "find (\<lambda>p. name p = name D) (packages cmd) = Some D"
      using find_distinct_name[OF assms(1), of "name D" D] by simp
    with q have "\<not> fst (hasMatchingDependency sys pkg D False s)" by simp
    with D(2) show False by (simp add: hasMatchingDependency_fst)
  qed
  from a b c show ?thesis unfolding Let_def by auto
qed

text \<open>
  C6, as the code has it. The candidates of the linking phase of a package are all the packages
  of \<^verbatim>\<open>this.packages\<close>, the package itself included: the targets that are removed and rebuilt
  are those of the packages whose name the package declares with a non-empty range that their
  version satisfies, in order. The package is linked into its own dependency directory when it
  declares its own name with a range that its version satisfies.
\<close>

theorem C6_candidates_are_all_packages:
  assumes "linkDependenciesForPackage sys cmd pkg s = (r, s')" and "r \<noteq> Thrown"
  shows "rimraf_paths (new_events s s') =
           map (\<lambda>D. path_join sys [nodeModulesLocation pkg, name D])
             (filter (\<lambda>D. \<exists>rng. map_of (allDependencies pkg) (name D) = Some rng \<and> rng \<noteq> [] \<and>
                                semver_satisfies sys (version D) (Some rng))
                (packages cmd)) \<and>
         (pkg \<in> set (packages cmd) \<and>
          (\<exists>rng. map_of (allDependencies pkg) (name pkg) = Some rng \<and> rng \<noteq> [] \<and>
                 semver_satisfies sys (version pkg) (Some rng)) \<longrightarrow>
          path_join sys [nodeModulesLocation pkg, name pkg]
            \<in> set (rimraf_paths (new_events s s')))"
proof -
  have a: "rimraf_paths (new_events s s') =
           map (\<lambda>D. path_join sys [nodeModulesLocation pkg, name D])
             (filter (\<lambda>D. \<exists>rng. map_of (allDependencies pkg) (name D) = Some rng \<and> rng \<noteq> [] \<and>
                                semver_satisfies sys (version D) (Some rng))
                (packages cmd))"
    using linkDependenciesForPackage_targets[OF assms]
    by (simp only: hasMatchingDependency_iff)
  show ?thesis
    unfolding a by auto
qed

section \<open>The result of the run\<close>

text \<open>
  C9, as the code has it. With a positive concurrency, the result of the command is an uncaught
  exception exactly when a pipeline threw one. Otherwise it is the result of the first pipeline,
  in the order in which the pipelines ended, that did not succeed, and success when there is
  none; it is a success exactly when the pipeline of every package was run and succeeded. A
  failure keeps the pipelines that are not started yet from being started: the pipelines that
  were run are those of the first \<open>concurrency + j\<close> packages, \<open>j\<close> being the number of
  pipelines that ended with success before the first that did not (after an uncaught exception,
  some of those). The pipelines that are running are not interrupted or altered: the outcomes
  and the world at the end are those of the pipelines that were run, one after the other in the
  order in which they ended, each from the state that the one before it left. On success, and
  only then, the success message is logged after them.
\<close>

theorem C9_overall_result:
  fixes sys :: "'w system" and s :: "'w state" and cmd sched r outs s'
  defines "tasks \<equiv> filterPackages sys (packages cmd)
                      (if truthy (flags_ignore cmd) then flags_ignore cmd
                       else bootstrapConfig_ignore cmd) True"
    and "ended \<equiv> replay (bootstrapPackage sys cmd) (map fst outs)
                    (emit (Info ''Linking all dependencies'')
                       (emit (ProgressInit (length (packages cmd))) s))"
    and "j \<equiv> length (takeWhile (\<lambda>(p, ro). ro = Done) outs)"
  assumes run: "execute sys cmd sched s = (r, outs, s')" and pos: "0 < concurrency cmd"
  shows
    "(r = Thrown) = (Thrown \<in> snd ` set outs) \<and>
     (r = Done) = (mset (map fst outs) = mset tasks \<and> list_all (\<lambda>(p, ro). ro = Done) outs) \<and>
     (r \<noteq> Thrown \<longrightarrow>
        r = first_outcome outs \<and>
        mset (map fst outs) = mset (take (concurrency cmd + j) tasks)) \<and>
     mset (map fst outs) \<subseteq># mset (take (concurrency cmd + j) tasks) \<and>
     fst ended = outs \<and>
     world s' = world (snd ended) \<and>
     (r = Done \<longrightarrow>
        log s' = log (snd ended) @
          [ProgressTerminate,
           Success (''Successfully bootstrapped '' @ string_of_nat (length (packages cmd))
                    @ '' packages.'')]) \<and>
     (r \<noteq> Done \<longrightarrow>
        filter (\<lambda>e. e \<noteq> ProgressTerminate) (log s') =
          filter (\<lambda>e. e \<noteq> ProgressTerminate) (log (snd ended)))"
proof -
  let ?s1 = "emit (Info ''Linking all dependencies'')
               (emit (ProgressInit (length (packages cmd))) s)"
  let ?msg = "Success (''Successfully bootstrapped '' @ string_of_nat (length (packages cmd))
                       @ '' packages.'')"
  obtain r0 outs0 s2 where
    pl: "parallelLimit tasks (bootstrapPackage sys cmd) (concurrency cmd) sched ?s1
           = (r0, outs0, s2)"
    by (cases "parallelLimit tasks (bootstrapPackage sys cmd) (concurrency cmd) sched ?s1")
  have ld: "linkDependencies sys cmd sched s =
              (r0, outs0, if r0 = Thrown then s2 else emit ProgressTerminate s2)"
    using pl by (cases r0) (simp_all add: linkDependencies_def Let_def tasks_def)
  have ex: "execute sys cmd sched s =
              (r0, outs0,
               if r0 = Thrown then s2
               else if r0 = Done then emit ?msg (emit ProgressTerminate s2)
               else emit ProgressTerminate s2)"
    by (cases r0) (simp_all add: execute_def ld)
  have "(r, outs, s') =
          (r0, outs0,
           if r0 = Thrown then s2
           else if r0 = Done then emit ?msg (emit ProgressTerminate s2)
           else emit ProgressTerminate s2)"
    by (rule trans[OF run[symmetric] ex])
  then have r: "r = r0" and o: "outs = outs0"
    and s': "s' = (if r0 = Thrown then s2
                   else if r0 = Done then emit ?msg (emit ProgressTerminate s2)
                   else emit ProgressTerminate s2)"
    by (blast elim: Pair_inject)+
  note res = parallelLimit_run[OF pl pos]
  have j: "j = length (takeWhile (\<lambda>(p, ro). ro = Done) outs0)" by (simp only: j_def o)
  have a1: "(r = Thrown) = (Thrown \<in> snd ` set outs)"
    unfolding r o by (rule res[THEN conjunct1])
  have a3: "r \<noteq> Thrown \<longrightarrow>
        r = first_outcome outs \<and>
        mset (map fst outs) = mset (take (concurrency cmd + j) tasks)"
    unfolding r o j by (rule res[THEN conjunct2, THEN conjunct1])
  have a4: "mset (map fst outs) \<subseteq># mset (take (concurrency cmd + j) tasks)"
    unfolding r o j by (rule res[THEN conjunct2, THEN conjunct2, THEN conjunct1])
  have all: "r = Done \<longrightarrow> mset (map fst outs) = mset tasks"
    unfolding r o by (rule res[THEN conjunct2, THEN conjunct2, THEN conjunct2, THEN conjunct1])
  have en: "ended = (outs, s2)"
    unfolding ended_def o
    by (rule res[THEN conjunct2, THEN conjunct2, THEN conjunct2, THEN conjunct2])
  have a2: "(r = Done) = (mset (map fst outs) = mset tasks \<and> list_all (\<lambda>(p, ro). ro = Done) outs)"
  proof
    assume d: "r = Done"
    then have "r \<noteq> Thrown" by simp
    with a3 d have "first_outcome outs = Done" by simp
    moreover from all d have "mset (map fst outs) = mset tasks" by simp
    ultimately show "mset (map fst outs) = mset tasks \<and> list_all (\<lambda>(p, ro). ro = Done) outs"
      by (simp add: first_outcome_Done)
  next
    assume h: "mset (map fst outs) = mset tasks \<and> list_all (\<lambda>(p, ro). ro = Done) outs"
    then have "Thrown \<notin> snd ` set outs" by (auto simp: list_all_iff)
    with a1 have "r \<noteq> Thrown" by simp
    with a3 have "r = first_outcome outs" by simp
    with h show "r = Done" by (simp add: first_outcome_Done)
  qed
  have a5: "fst ended = outs" using en by simp
  have a6: "world s' = world (snd ended)" unfolding en s' by simp
  have a7: "r = Done \<longrightarrow> log s' = log (snd ended) @ [ProgressTerminate, ?msg]"
    unfolding en s' r by simp
  have a8: "r \<noteq> Done \<longrightarrow>
        filter (\<lambda>e. e \<noteq> ProgressTerminate) (log s') =
          filter (\<lambda>e. e \<noteq> ProgressTerminate) (log (snd ended))"
    unfolding en s' r by simp
  show ?thesis
    by (rule conjI[OF a1 conjI[OF a2 conjI[OF a3 conjI[OF a4 conjI[OF a5 conjI[OF a6
          conjI[OF a7 a8]]]]]]])
qed

section \<open>The command on the example workspace\<close>

text \<open>
  C1. The package \<^verbatim>\<open>A\<close> declares \<^verbatim>\<open>B\<close> with the empty range, which every version satisfies,
  and \<^verbatim>\<open>B\<close> is in the workspace: the linking phase of \<^verbatim>\<open>A\<close> links nothing and warns of
  nothing.
\<close>

theorem C1_empty_range_not_linked:
  "map_of (allDependencies pkgA_any) (name pkgB) = Some [] \<and>
   semver_satisfies demo_sys (version pkgB) (Some []) \<and>
   fst (linkDependenciesForPackage demo_sys any_cmd pkgA_any demo_state) = Done \<and>
   log (snd (linkDependenciesForPackage demo_sys any_cmd pkgA_any demo_state)) = []"
  by code_simp

lemma empty_range_sent_to_installer:
  "log (snd (installExternalPackages demo_sys any_cmd pkgA_any demo_state))
     = [InstallInDir ''/ws/A'' [''B@''] None]"
  by code_simp

text \<open>
  C2. For the sibling \<^verbatim>\<open>B\<close> of the example, the compiled copy of the command writes a
  \<^verbatim>\<open>package.json\<close> with the three properties \<^verbatim>\<open>name\<close>, \<^verbatim>\<open>version\<close> and \<^verbatim>\<open>main\<close>, where the source
  writes \<^verbatim>\<open>name\<close> and \<^verbatim>\<open>version\<close> only.
\<close>

theorem C2_lib_manifest_has_main:
  "last (log (snd (createLinkedDependencyFiles_lib demo_sys demo_cmd ''/ws/B''
                     ''/ws/A/node_modules/B'' ''B'' demo_state))) =
     WriteFile ''/ws/A/node_modules/B/package.json''
       (''{'' @ [newline] @
        ''  '' @ [dquote] @ ''name'' @ [dquote] @ '': '' @ [dquote] @ ''B'' @ [dquote] @ '','' @
        [newline] @
        ''  '' @ [dquote] @ ''version'' @ [dquote] @ '': '' @ [dquote] @ ''1.2.0'' @ [dquote] @
        '','' @ [newline] @
        ''  '' @ [dquote] @ ''main'' @ [dquote] @ '': '' @ [dquote] @ ''index.js'' @ [dquote] @
        [newline] @ ''}'')
       None \<and>
   last (log (snd (createLinkedDependencyFiles demo_sys demo_cmd ''/ws/B''
                     ''/ws/A/node_modules/B'' ''B'' demo_state))) =
     WriteFile ''/ws/A/node_modules/B/package.json''
       (''{'' @ [newline] @
        ''  '' @ [dquote] @ ''name'' @ [dquote] @ '': '' @ [dquote] @ ''B'' @ [dquote] @ '','' @
        [newline] @
        ''  '' @ [dquote] @ ''version'' @ [dquote] @ '': '' @ [dquote] @ ''1.2.0'' @ [dquote] @
        [newline] @ ''}'')
       None"
  by code_simp

text \<open>
  C3 as stated fails on a workspace whose only package \<^verbatim>\<open>S\<close> declares its own name with a
  range that its version satisfies: there is no sibling named \<^verbatim>\<open>S\<close> and no installed copy,
  and yet \<^verbatim>\<open>S\<close> is left out of the batch.
\<close>

theorem C3_counterexample:
  "packages self_cmd = [pkgS] \<and>
   map_of (allDependencies pkgS) ''S'' = Some ''^1.0.0'' \<and>
   fst (require demo_sys ''/ws/S/node_modules/S/package.json'' demo_state) = None \<and>
   fst (externalDependencies demo_sys self_cmd pkgS demo_state) = []"
  by code_simp

text \<open>
  C3 on the package \<^verbatim>\<open>A\<close> of the example, which declares \<^verbatim>\<open>B\<close> with the range \<^verbatim>\<open>^1.0.0\<close>: the
  version of \<^verbatim>\<open>B\<close> satisfies it, \<^verbatim>\<open>B\<close> is left out of the batch and the installer is not called.
\<close>

theorem C3_witness:
  "distinct (map name (packages demo_cmd)) \<and>
   map_of (allDependencies pkgA) ''B'' = Some ''^1.0.0'' \<and>
   ''B'' \<notin> set (fst (externalDependencies demo_sys demo_cmd pkgA demo_state)) \<and>
   fst (installExternalPackages demo_sys demo_cmd pkgA demo_state) = Done"
proof -
  have h1: "distinct (map name (packages demo_cmd))" by code_simp
  have h2: "map_of (allDependencies pkgA) ''B'' = Some ''^1.0.0''" by code_simp
  have h3: "''^1.0.0'' \<noteq> []" by simp
  note inst = C3_external_batch[OF h1 h2 h3, of demo_sys demo_state]
  have sib: "pkgB \<in> set (packages demo_cmd) \<and> name pkgB = ''B'' \<and>
             semver_satisfies demo_sys (version pkgB) (Some ''^1.0.0'')"
    by code_simp
  have c1: "''B'' \<notin> set (fst (externalDependencies demo_sys demo_cmd pkgA demo_state))"
    using inst sib by blast
  have e: "fst (case externalDependencies demo_sys demo_cmd pkgA demo_state of
                (ds, s1) \<Rightarrow>
                  if ds = [] then (Done, s1)
                  else installInDir demo_sys (location pkgA)
                         (map (\<lambda>dependency.
                                 dependency @ ''@'' @
                                 toString (map_of (allDependencies pkgA) dependency))
                            ds) s1) = Done"
    by code_simp
  have c2: "fst (installExternalPackages demo_sys demo_cmd pkgA demo_state) = Done"
    using inst e by simp
  show ?thesis by (rule conjI[OF h1 conjI[OF h2 conjI[OF c1 c2]]])
qed

text \<open>
  C4 as stated fails in the pipeline of \<^verbatim>\<open>A\<close>: the version of \<^verbatim>\<open>B\<close> is checked against the
  range that \<^verbatim>\<open>A\<close> declares twice, once when the batch is computed and once when linking.
\<close>

theorem C4_counterexample:
  "count_list (log (snd (bootstrapPackage demo_sys demo_cmd pkgA demo_state)))
     (Satisfies (Some ''1.2.0'') (Some ''^1.0.0'')) = 2"
  by code_simp

text \<open>C4 on the package \<^verbatim>\<open>A\<close>: the one target is that of \<^verbatim>\<open>B\<close>, which is not in the batch.\<close>

theorem C4_witness:
  "distinct (map name (packages demo_cmd)) \<and>
   fst (linkDependenciesForPackage demo_sys demo_cmd pkgA demo_state) \<noteq> Thrown \<and>
   rimraf_paths (new_events demo_state
      (snd (linkDependenciesForPackage demo_sys demo_cmd pkgA demo_state)))
     = [''/ws/A/node_modules/B''] \<and>
   set [''B''] \<inter> set (fst (externalDependencies demo_sys demo_cmd pkgA demo_state)) = {}"
proof -
  let ?run = "linkDependenciesForPackage demo_sys demo_cmd pkgA demo_state"
  have h1: "distinct (map name (packages demo_cmd))" by code_simp
  have h2: "?run = (fst ?run, snd ?run)" by simp
  have h3: "fst ?run \<noteq> Thrown" by code_simp
  note inst = C4_linked_once_and_disjoint[OF h1 h2 h3, of demo_state, unfolded Let_def]
  have l: "filter (\<lambda>D. fst (hasMatchingDependency demo_sys pkgA D True demo_state))
             (packages demo_cmd) = [pkgB]"
    by code_simp
  have n: "map (\<lambda>D. path_join demo_sys [nodeModulesLocation pkgA, name D]) [pkgB]
             = [''/ws/A/node_modules/B'']" "map name [pkgB] = [''B'']"
    by code_simp+
  have c1: "rimraf_paths (new_events demo_state (snd ?run)) = [''/ws/A/node_modules/B'']"
    using inst by (simp only: l n)
  have c2: "set [''B''] \<inter> set (fst (externalDependencies demo_sys demo_cmd pkgA demo_state)) = {}"
    using inst by (simp only: l n)
  show ?thesis by (rule conjI[OF h1 conjI[OF h3 conjI[OF c1 c2]]])
qed

text \<open>
  C5 as stated fails when the manifest of the sibling \<^verbatim>\<open>B\<close> cannot be loaded: the pipeline of
  \<^verbatim>\<open>A\<close> ends with an uncaught exception.
\<close>

theorem C5_counterexample:
  "fst (require demo_sys ''/ws/B/package.json'' broken_state) = None \<and>
   fst (bootstrapPackage demo_sys demo_cmd pkgA broken_state) = Thrown"
  by code_simp

text \<open>
  C5 on the package \<^verbatim>\<open>A\<close>: no copy of \<^verbatim>\<open>B\<close> is installed, which counts as not installed; and
  linking \<^verbatim>\<open>B\<close> when its manifest cannot be loaded throws.
\<close>

theorem C5_witness:
  "fst (require demo_sys
          (path_join demo_sys [nodeModulesLocation pkgA, ''B'', ''package.json'']) demo_state)
     = None \<and>
   \<not> fst (hasDependencyInstalled demo_sys pkgA ''B'' demo_state) \<and>
   fst (require demo_sys (path_join demo_sys [''/ws/B'', ''package.json'']) broken_state)
     = None \<and>
   fst (createLinkedDependencyFiles demo_sys demo_cmd ''/ws/B'' ''/ws/A/node_modules/B'' ''B''
          broken_state) = Thrown"
proof -
  have h1: "fst (require demo_sys
          (path_join demo_sys [nodeModulesLocation pkgA, ''B'', ''package.json'']) demo_state)
     = None"
    by code_simp
  have h2: "fst (require demo_sys (path_join demo_sys [''/ws/B'', ''package.json''])
                   broken_state) = None"
    by code_simp
  have c1: "\<not> fst (hasDependencyInstalled demo_sys pkgA ''B'' demo_state)"
    using C5_manifest_failures[of demo_sys pkgA "''B''" demo_state demo_cmd "''/ws/B''"
        "''/ws/A/node_modules/B''" "''B''"] h1
    by blast
  have c2: "fst (createLinkedDependencyFiles demo_sys demo_cmd ''/ws/B''
                   ''/ws/A/node_modules/B'' ''B'' broken_state) = Thrown"
    using C5_manifest_failures[of demo_sys pkgA "''B''" broken_state demo_cmd "''/ws/B''"
        "''/ws/A/node_modules/B''" "''B''"] h2
    by blast
  show ?thesis by (rule conjI[OF h1 conjI[OF c1 conjI[OF h2 c2]]])
qed

text \<open>
  C6 as stated fails on the package \<^verbatim>\<open>S\<close> that declares its own name: its own pipeline links
  it into its own dependency directory.
\<close>

theorem C6_counterexample:
  "pkgS \<in> set (packages self_cmd) \<and>
   nodeModulesLocation pkgS = ''/ws/S/node_modules'' \<and> name pkgS = ''S'' \<and>
   rimraf_paths (log (snd (linkDependenciesForPackage demo_sys self_cmd pkgS demo_state)))
     = [''/ws/S/node_modules/S'']"
  by code_simp

text \<open>C6 on the package \<^verbatim>\<open>S\<close>, which is in the workspace and declares itself.\<close>

theorem C6_witness:
  "fst (linkDependenciesForPackage demo_sys self_cmd pkgS demo_state) \<noteq> Thrown \<and>
   pkgS \<in> set (packages self_cmd) \<and>
   map_of (allDependencies pkgS) (name pkgS) = Some ''^1.0.0'' \<and>
   semver_satisfies demo_sys (version pkgS) (Some ''^1.0.0'') \<and>
   path_join demo_sys [nodeModulesLocation pkgS, name pkgS]
     \<in> set (rimraf_paths (new_events demo_state
              (snd (linkDependenciesForPackage demo_sys self_cmd pkgS demo_state))))"
proof -
  let ?run = "linkDependenciesForPackage demo_sys self_cmd pkgS demo_state"
  have h1: "?run = (fst ?run, snd ?run)" by simp
  have h2: "fst ?run \<noteq> Thrown" by code_simp
  have h3: "pkgS \<in> set (packages self_cmd)" by code_simp
  have h4: "map_of (allDependencies pkgS) (name pkgS) = Some ''^1.0.0''" by code_simp
  have h5: "semver_satisfies demo_sys (version pkgS) (Some ''^1.0.0'')" by code_simp
  have h6: "''^1.0.0'' \<noteq> []" by simp
  have c: "path_join demo_sys [nodeModulesLocation pkgS, name pkgS]
     \<in> set (rimraf_paths (new_events demo_state (snd ?run)))"
    using C6_candidates_are_all_packages[OF h1 h2] h3 h4 h5 h6 by blast
  show ?thesis by (rule conjI[OF h2 conjI[OF h3 conjI[OF h4 conjI[OF h5 c]]]])
qed

text \<open>
  C7 on the main file \<^verbatim>\<open>index.js\<close> of \<^verbatim>\<open>B\<close>, linked for \<^verbatim>\<open>A\<close> with the configured prefix
  \<^verbatim>\<open>/* linked */ \<close>.
\<close>

theorem C7_witness:
  "fst (require demo_sys (path_join demo_sys [''/ws/B'', ''package.json'']) demo_state)
     = Some manifestB \<and>
   manifest_lerna_files manifestB = Some [Some ''data.json''] \<and>
   manifest_main manifestB = Some ''index.js'' \<and>
   glob demo_sys (Some ''data.json'') ''/ws/B'' (world demo_state) = Matches [''data.json''] \<and>
   glob demo_sys (Some ''index.js'') ''/ws/B'' (world demo_state) = Matches [''index.js''] \<and>
   path_extname demo_sys ''index.js'' = ''.js'' \<and>
   linkedFiles_prefix demo_cmd = Some ''/* linked */ '' \<and>
   ((\<exists>e. Mkdirp ''/ws/A/node_modules/B'' (Some e)
          \<in> set (new_events demo_state
                   (snd (createLinkedDependencyFiles demo_sys demo_cmd ''/ws/B''
                           ''/ws/A/node_modules/B'' ''B'' demo_state)))) \<or>
    (\<exists>err. WriteFile ''/ws/A/node_modules/B/index.js''
             (''/* linked */ module.exports = require('' @ [dquote] @ ''/ws/B/index.js''
                @ [dquote] @ '');'') err
          \<in> set (new_events demo_state
                   (snd (createLinkedDependencyFiles demo_sys demo_cmd ''/ws/B''
                           ''/ws/A/node_modules/B'' ''B'' demo_state))))) \<and>
   reexport_target (''module.exports = require('' @ [dquote] @ ''/ws/B/index.js'' @ [dquote]
                      @ '');'') = Some ''/ws/B/index.js'' \<and>
   new_events demo_state
     (snd (createLinkedDependencyFiles demo_sys demo_cmd ''/ws/B''
             ''/ws/A/node_modules/B'' ''B'' demo_state)) ! 5
     = WriteFile ''/ws/A/node_modules/B/index.js''
         (''/* linked */ module.exports = require('' @ [dquote] @ ''/ws/B/index.js''
            @ [dquote] @ '');'') None"
proof -
  have h1: "fst (require demo_sys (path_join demo_sys [''/ws/B'', ''package.json''])
                   demo_state) = Some manifestB"
    by code_simp
  have m1: "manifest_lerna_files manifestB = Some [Some ''data.json'']"
    and m2: "manifest_main manifestB = Some ''index.js''"
    by (simp_all add: manifestB_def)
  have g1: "glob demo_sys (Some ''data.json'') ''/ws/B'' (world demo_state)
              = Matches [''data.json'']"
    by code_simp
  have g2: "glob demo_sys (Some ''index.js'') ''/ws/B'' (world demo_state)
              = Matches [''index.js'']"
    by code_simp
  have h2: "\<forall>pat \<in> set ((case manifest_lerna_files manifestB of None \<Rightarrow> [] | Some fs \<Rightarrow> fs)
                         @ [manifest_main manifestB]).
              \<exists>m. glob demo_sys pat ''/ws/B'' (world demo_state) = Matches m"
    by (simp add: m1 m2 g1 g2)
  have h3: "Some ''index.js'' \<in> set ((case manifest_lerna_files manifestB of
                                         None \<Rightarrow> [] | Some fs \<Rightarrow> fs)
                                      @ [manifest_main manifestB])"
    by (simp add: m1 m2)
  have h5: "''index.js'' \<in> set [''index.js'']" by simp
  have h6: "path_extname demo_sys ''index.js'' = ''.js''" by code_simp
  have p: "linkedFiles_prefix demo_cmd = Some ''/* linked */ ''" by code_simp
  note inst = C7_proxy_content[where cmd = demo_cmd and dest = "''/ws/A/node_modules/B''"
      and nm = "''B''", OF h1, THEN conjunct1, THEN mp, OF h2, THEN bspec, OF h3, THEN spec,
      THEN mp, OF g2, THEN bspec, OF h5, THEN mp, OF h6]
  have e1: "path_dirname demo_sys ''/ws/A/node_modules/B/index.js'' = ''/ws/A/node_modules/B''"
    and e2: "path_join demo_sys [''/ws/A/node_modules/B'', ''index.js'']
              = ''/ws/A/node_modules/B/index.js''"
    and e3: "(case linkedFiles_prefix demo_cmd of None \<Rightarrow> [] | Some p \<Rightarrow> p)
               @ ''module.exports = require(''
               @ JSON_stringify_string (path_join demo_sys [''/ws/B'', ''index.js'']) @ '');''
             = ''/* linked */ module.exports = require('' @ [dquote] @ ''/ws/B/index.js''
                 @ [dquote] @ '');''"
    and e4: "drop (length (case linkedFiles_prefix demo_cmd of None \<Rightarrow> [] | Some p \<Rightarrow> p))
               (''/* linked */ module.exports = require('' @ [dquote] @ ''/ws/B/index.js''
                 @ [dquote] @ '');'')
             = ''module.exports = require('' @ [dquote] @ ''/ws/B/index.js'' @ [dquote] @ '');''"
    and e5: "path_join demo_sys [''/ws/B'', ''index.js''] = ''/ws/B/index.js''"
    and e6: "(case linkedFiles_prefix demo_cmd of None \<Rightarrow> [] | Some p \<Rightarrow> p)
               @ ''module.exports = require(''
               @ JSON_stringify_string ''/ws/B/index.js'' @ '');''
             = ''/* linked */ module.exports = require('' @ [dquote] @ ''/ws/B/index.js''
                 @ [dquote] @ '');''"
    by code_simp+
  have c1: "(\<exists>e. Mkdirp ''/ws/A/node_modules/B'' (Some e)
          \<in> set (new_events demo_state
                   (snd (createLinkedDependencyFiles demo_sys demo_cmd ''/ws/B''
                           ''/ws/A/node_modules/B'' ''B'' demo_state)))) \<or>
    (\<exists>err. WriteFile ''/ws/A/node_modules/B/index.js''
             (''/* linked */ module.exports = require('' @ [dquote] @ ''/ws/B/index.js''
                @ [dquote] @ '');'') err
          \<in> set (new_events demo_state
                   (snd (createLinkedDependencyFiles demo_sys demo_cmd ''/ws/B''
                           ''/ws/A/node_modules/B'' ''B'' demo_state))))"
    using inst[THEN conjunct1] by (simp only: e1 e2 e3)
  have c2: "reexport_target (''module.exports = require('' @ [dquote] @ ''/ws/B/index.js''
                               @ [dquote] @ '');'') = Some ''/ws/B/index.js''"
    using inst[THEN conjunct2] by (simp only: e5 e6 e4)
  have c3: "new_events demo_state
     (snd (createLinkedDependencyFiles demo_sys demo_cmd ''/ws/B''
             ''/ws/A/node_modules/B'' ''B'' demo_state)) ! 5
     = WriteFile ''/ws/A/node_modules/B/index.js''
         (''/* linked */ module.exports = require('' @ [dquote] @ ''/ws/B/index.js''
            @ [dquote] @ '');'') None"
    by code_simp
  show ?thesis
    by (rule conjI[OF h1 conjI[OF m1 conjI[OF m2 conjI[OF g1 conjI[OF g2 conjI[OF h6
          conjI[OF p conjI[OF c1 conjI[OF c2 c3]]]]]]]]])
qed



text \<open>
  C9 as stated fails with the packages \<^verbatim>\<open>C\<close>, \<^verbatim>\<open>A\<close>, \<^verbatim>\<open>B\<close> and a concurrency of one: the
  pipeline of \<^verbatim>\<open>C\<close> fails, and the pipelines of \<^verbatim>\<open>A\<close> and \<^verbatim>\<open>B\<close>, which succeed when they are
  run, are not started.
\<close>

theorem C9_counterexample:
  "concurrency fail_cmd = 1 \<and>
   filterPackages demo_sys (packages fail_cmd) None True = [pkgC, pkgA, pkgB] \<and>
   fst (linkDependencies demo_sys fail_cmd [] demo_state)
     = Failed (Error (Some ''ETARGET'') ''No compatible version found'') \<and>
   fst (snd (linkDependencies demo_sys fail_cmd [] demo_state))
     = [(pkgC, Failed (Error (Some ''ETARGET'') ''No compatible version found''))] \<and>
   fst (bootstrapPackage demo_sys fail_cmd pkgA demo_state) = Done \<and>
   fst (bootstrapPackage demo_sys fail_cmd pkgB demo_state) = Done \<and>
   count_list (log (snd (snd (linkDependencies demo_sys fail_cmd [] demo_state))))
     (Mkdirp ''/ws/A/node_modules'' None) = 0"
  by code_simp

text \<open>
  C9 on two runs. With the packages \<^verbatim>\<open>C\<close>, \<^verbatim>\<open>A\<close>, \<^verbatim>\<open>B\<close> and a concurrency of one, the
  pipeline of \<^verbatim>\<open>C\<close> fails: the result is its failure and the one pipeline that was run is
  that of the first package. With the packages \<^verbatim>\<open>A\<close>, \<^verbatim>\<open>B\<close> and a concurrency of four, when
  the pipeline of \<^verbatim>\<open>B\<close> ends before that of \<^verbatim>\<open>A\<close>: both succeed and the result is a success.
\<close>

theorem C9_witness:
  "0 < concurrency fail_cmd \<and>
   fst (execute demo_sys fail_cmd [] demo_state) \<noteq> Thrown \<and>
   fst (snd (execute demo_sys fail_cmd [] demo_state))
     = [(pkgC, Failed (Error (Some ''ETARGET'') ''No compatible version found''))] \<and>
   fst (execute demo_sys fail_cmd [] demo_state)
     = Failed (Error (Some ''ETARGET'') ''No compatible version found'') \<and>
   mset (map fst (fst (snd (execute demo_sys fail_cmd [] demo_state)))) = mset [pkgC] \<and>
   0 < concurrency demo_cmd \<and>
   fst (execute demo_sys demo_cmd [1, 0] demo_state) \<noteq> Thrown \<and>
   fst (snd (execute demo_sys demo_cmd [1, 0] demo_state)) = [(pkgB, Done), (pkgA, Done)] \<and>
   fst (execute demo_sys demo_cmd [1, 0] demo_state) = Done \<and>
   mset (map fst (fst (snd (execute demo_sys demo_cmd [1, 0] demo_state))))
     = mset (filterPackages demo_sys (packages demo_cmd)
               (if truthy (flags_ignore demo_cmd) then flags_ignore demo_cmd
                else bootstrapConfig_ignore demo_cmd) True)"
proof -
  let ?err = "Error (Some ''ETARGET'') ''No compatible version found''"
  let ?run = "execute demo_sys fail_cmd [] demo_state"
  have h1: "?run = (fst ?run, fst (snd ?run), snd (snd ?run))" by simp
  have h2: "0 < concurrency fail_cmd" by code_simp
  have h3: "fst ?run \<noteq> Thrown" by code_simp
  note inst = C9_overall_result[OF h1 h2, THEN conjunct2, THEN conjunct2, THEN conjunct1,
      THEN mp, OF h3]
  have e: "fst (snd ?run) = [(pkgC, Failed ?err)]" by code_simp
  have f: "first_outcome [(pkgC, Failed ?err)] = Failed ?err" by simp
  have c1: "fst ?run = Failed ?err"
    using inst[THEN conjunct1] by (simp only: e f)
  have t: "take (concurrency fail_cmd
                 + length (takeWhile (\<lambda>(p, ro). ro = Done) [(pkgC, Failed ?err)]))
             (filterPackages demo_sys (packages fail_cmd)
                (if truthy (flags_ignore fail_cmd) then flags_ignore fail_cmd
                 else bootstrapConfig_ignore fail_cmd) True) = [pkgC]"
    by code_simp
  have c2: "mset (map fst (fst (snd ?run))) = mset [pkgC]"
    using inst[THEN conjunct2] by (simp only: e t)
  let ?ok = "execute demo_sys demo_cmd [1, 0] demo_state"
  have k1: "?ok = (fst ?ok, fst (snd ?ok), snd (snd ?ok))" by simp
  have k2: "0 < concurrency demo_cmd" by code_simp
  have k3: "fst ?ok \<noteq> Thrown" by code_simp
  note ok = C9_overall_result[OF k1 k2]
  have e': "fst (snd ?ok) = [(pkgB, Done), (pkgA, Done)]" by code_simp
  have f': "first_outcome [(pkgB, Done), (pkgA, Done)] = Done" by simp
  have d1: "fst ?ok = Done"
    using ok[THEN conjunct2, THEN conjunct2, THEN conjunct1, THEN mp, OF k3, THEN conjunct1]
    by (simp only: e' f')
  have d2: "mset (map fst (fst (snd ?ok)))
     = mset (filterPackages demo_sys (packages demo_cmd)
               (if truthy (flags_ignore demo_cmd) then flags_ignore demo_cmd
                else bootstrapConfig_ignore demo_cmd) True)"
    using ok[THEN conjunct2, THEN conjunct1] d1 by blast
  show ?thesis
    by (rule conjI[OF h2 conjI[OF h3 conjI[OF e conjI[OF c1 conjI[OF c2 conjI[OF k2
          conjI[OF k3 conjI[OF e' conjI[OF d1 d2]]]]]]]]])
qed

text \<open>
  C10 on the files of \<^verbatim>\<open>B\<close>, linked for \<^verbatim>\<open>A\<close>: \<^verbatim>\<open>data.json\<close> gets a symbolic link and
  \<^verbatim>\<open>index.js\<close> a proxy; and when the manifest of \<^verbatim>\<open>B\<close> names \<^verbatim>\<open>data.json\<close> as its main file,
  that main file gets a symbolic link. The extensions are those that \<^verbatim>\<open>path.extname\<close> finds.
\<close>

theorem C10_witness:
  "map (path_extname demo_sys) [''index.js'', ''data.json'', ''view.jsx'', ''README'']
     = [''.js'', ''.json'', ''.jsx'', []] \<and>
   fst (require demo_sys (path_join demo_sys [''/ws/B'', ''package.json'']) demo_state)
     = Some manifestB \<and>
   glob demo_sys (Some ''data.json'') ''/ws/B'' (world demo_state) = Matches [''data.json''] \<and>
   glob demo_sys (Some ''index.js'') ''/ws/B'' (world demo_state) = Matches [''index.js''] \<and>
   ((\<exists>e. Mkdirp ''/ws/A/node_modules/B'' (Some e)
          \<in> set (new_events demo_state
                   (snd (createLinkedDependencyFiles demo_sys demo_cmd ''/ws/B''
                           ''/ws/A/node_modules/B'' ''B'' demo_state)))) \<or>
    (\<exists>err. Symlink ''/ws/B/data.json'' ''/ws/A/node_modules/B/data.json'' err
          \<in> set (new_events demo_state
                   (snd (createLinkedDependencyFiles demo_sys demo_cmd ''/ws/B''
                           ''/ws/A/node_modules/B'' ''B'' demo_state))))) \<and>
   ((\<exists>e. Mkdirp ''/ws/A/node_modules/B'' (Some e)
          \<in> set (new_events demo_state
                   (snd (createLinkedDependencyFiles demo_sys demo_cmd ''/ws/B''
                           ''/ws/A/node_modules/B'' ''B'' demo_state)))) \<or>
    (\<exists>err. WriteFile ''/ws/A/node_modules/B/index.js''
             (fileContent (linkPrefix demo_cmd) ''/ws/B/index.js'') err
          \<in> set (new_events demo_state
                   (snd (createLinkedDependencyFiles demo_sys demo_cmd ''/ws/B''
                           ''/ws/A/node_modules/B'' ''B'' demo_state))))) \<and>
   fst (require demo_sys (path_join demo_sys [''/ws/B'', ''package.json'']) twice_state)
     = Some (manifestB\<lparr>manifest_main := Some ''data.json''\<rparr>) \<and>
   ((\<exists>e. Mkdirp ''/ws/A/node_modules/B'' (Some e)
          \<in> set (new_events twice_state
                   (snd (createLinkedDependencyFiles demo_sys demo_cmd ''/ws/B''
                           ''/ws/A/node_modules/B'' ''B'' twice_state)))) \<or>
    (\<exists>err. Symlink ''/ws/B/data.json'' ''/ws/A/node_modules/B/data.json'' err
          \<in> set (new_events twice_state
                   (snd (createLinkedDependencyFiles demo_sys demo_cmd ''/ws/B''
                           ''/ws/A/node_modules/B'' ''B'' twice_state))))) \<and>
   new_events demo_state
     (snd (createLinkedDependencyFiles demo_sys demo_cmd ''/ws/B''
             ''/ws/A/node_modules/B'' ''B'' demo_state)) ! 3
     = Symlink ''/ws/B/data.json'' ''/ws/A/node_modules/B/data.json'' None"
proof -
  let ?dest = "''/ws/A/node_modules/B''"
  have x: "map (path_extname demo_sys) [''index.js'', ''data.json'', ''view.jsx'', ''README'']
     = [''.js'', ''.json'', ''.jsx'', []]"
    by code_simp
  have h1: "fst (require demo_sys (path_join demo_sys [''/ws/B'', ''package.json''])
                   demo_state) = Some manifestB"
    by code_simp
  have m1: "manifest_lerna_files manifestB = Some [Some ''data.json'']"
    and m2: "manifest_main manifestB = Some ''index.js''"
    by (simp_all add: manifestB_def)
  have g1: "glob demo_sys (Some ''data.json'') ''/ws/B'' (world demo_state)
              = Matches [''data.json'']"
    by code_simp
  have g2: "glob demo_sys (Some ''index.js'') ''/ws/B'' (world demo_state)
              = Matches [''index.js'']"
    by code_simp
  have h2: "\<forall>pat \<in> set ((case manifest_lerna_files manifestB of None \<Rightarrow> [] | Some fs \<Rightarrow> fs)
                         @ [manifest_main manifestB]).
              \<exists>m. glob demo_sys pat ''/ws/B'' (world demo_state) = Matches m"
    by (simp add: m1 m2 g1 g2)
  have p1: "Some ''data.json'' \<in> set ((case manifest_lerna_files manifestB of
                                          None \<Rightarrow> [] | Some fs \<Rightarrow> fs)
                                       @ [manifest_main manifestB])"
    and p2: "Some ''index.js'' \<in> set ((case manifest_lerna_files manifestB of
                                         None \<Rightarrow> [] | Some fs \<Rightarrow> fs)
                                      @ [manifest_main manifestB])"
    by (simp_all add: m1 m2)
  have f1: "''data.json'' \<in> set [''data.json'']" and f2: "''index.js'' \<in> set [''index.js'']"
    by simp_all
  have x1: "path_extname demo_sys ''data.json'' \<noteq> ''.js''" by code_simp
  have x2: "path_extname demo_sys ''index.js'' = ''.js''" by code_simp
  note all = C10_extension_decides[where cmd = demo_cmd and dest = ?dest and nm = "''B''",
      OF h1, THEN conjunct1, THEN mp, OF h2, THEN conjunct1]
  note i1 = all[THEN bspec, OF p1, THEN spec, THEN mp, OF g1, THEN bspec, OF f1,
      unfolded if_not_P[OF x1]]
  note i2 = all[THEN bspec, OF p2, THEN spec, THEN mp, OF g2, THEN bspec, OF f2,
      unfolded if_P[OF x2]]
  have e1: "path_dirname demo_sys ''/ws/A/node_modules/B/data.json'' = ''/ws/A/node_modules/B''"
    and e2: "path_join demo_sys [''/ws/A/node_modules/B'', ''data.json'']
              = ''/ws/A/node_modules/B/data.json''"
    and e3: "path_join demo_sys [''/ws/B'', ''data.json''] = ''/ws/B/data.json''"
    and e4: "path_dirname demo_sys ''/ws/A/node_modules/B/index.js'' = ''/ws/A/node_modules/B''"
    and e5: "path_join demo_sys [''/ws/A/node_modules/B'', ''index.js'']
              = ''/ws/A/node_modules/B/index.js''"
    and e6: "path_join demo_sys [''/ws/B'', ''index.js''] = ''/ws/B/index.js''"
    by code_simp+
  have c1: "(\<exists>e. Mkdirp ''/ws/A/node_modules/B'' (Some e)
          \<in> set (new_events demo_state
                   (snd (createLinkedDependencyFiles demo_sys demo_cmd ''/ws/B''
                           ''/ws/A/node_modules/B'' ''B'' demo_state)))) \<or>
    (\<exists>err. Symlink ''/ws/B/data.json'' ''/ws/A/node_modules/B/data.json'' err
          \<in> set (new_events demo_state
                   (snd (createLinkedDependencyFiles demo_sys demo_cmd ''/ws/B''
                           ''/ws/A/node_modules/B'' ''B'' demo_state))))"
    using i1 by (simp only: e1 e2 e3)
  have c2: "(\<exists>e. Mkdirp ''/ws/A/node_modules/B'' (Some e)
          \<in> set (new_events demo_state
                   (snd (createLinkedDependencyFiles demo_sys demo_cmd ''/ws/B''
                           ''/ws/A/node_modules/B'' ''B'' demo_state)))) \<or>
    (\<exists>err. WriteFile ''/ws/A/node_modules/B/index.js''
             (fileContent (linkPrefix demo_cmd) ''/ws/B/index.js'') err
          \<in> set (new_events demo_state
                   (snd (createLinkedDependencyFiles demo_sys demo_cmd ''/ws/B''
                           ''/ws/A/node_modules/B'' ''B'' demo_state))))"
    using i2 by (simp only: e4 e5 e6)
  let ?m = "manifestB\<lparr>manifest_main := Some ''data.json''\<rparr>"
  have k1: "fst (require demo_sys (path_join demo_sys [''/ws/B'', ''package.json''])
                   twice_state) = Some ?m"
    by code_simp
  have n1: "manifest_lerna_files ?m = Some [Some ''data.json'']"
    and n2: "manifest_main ?m = Some ''data.json''"
    by (simp_all add: manifestB_def)
  have g3: "glob demo_sys (Some ''data.json'') ''/ws/B'' (world twice_state)
              = Matches [''data.json'']"
    by code_simp
  have k2: "\<forall>pat \<in> set ((case manifest_lerna_files ?m of None \<Rightarrow> [] | Some fs \<Rightarrow> fs)
                         @ [manifest_main ?m]).
              \<exists>m. glob demo_sys pat ''/ws/B'' (world twice_state) = Matches m"
    by (simp add: n1 n2 g3)
  have g4: "glob demo_sys (manifest_main ?m) ''/ws/B'' (world twice_state)
              = Matches [''data.json'']"
    unfolding n2 by (rule g3)
  note i3 = C10_extension_decides[where cmd = demo_cmd and dest = ?dest and nm = "''B''",
      OF k1, THEN conjunct1, THEN mp, OF k2, THEN conjunct2, THEN spec, THEN mp, OF g4,
      THEN bspec, OF f1, THEN mp, OF x1]
  have c3: "(\<exists>e. Mkdirp ''/ws/A/node_modules/B'' (Some e)
          \<in> set (new_events twice_state
                   (snd (createLinkedDependencyFiles demo_sys demo_cmd ''/ws/B''
                           ''/ws/A/node_modules/B'' ''B'' twice_state)))) \<or>
    (\<exists>err. Symlink ''/ws/B/data.json'' ''/ws/A/node_modules/B/data.json'' err
          \<in> set (new_events twice_state
                   (snd (createLinkedDependencyFiles demo_sys demo_cmd ''/ws/B''
                           ''/ws/A/node_modules/B'' ''B'' twice_state))))"
    using i3 by (simp only: e1 e2 e3)
  have c4: "new_events demo_state
     (snd (createLinkedDependencyFiles demo_sys demo_cmd ''/ws/B''
             ''/ws/A/node_modules/B'' ''B'' demo_state)) ! 3
     = Symlink ''/ws/B/data.json'' ''/ws/A/node_modules/B/data.json'' None"
    by code_simp
  show ?thesis
    by (rule conjI[OF x conjI[OF h1 conjI[OF g1 conjI[OF g2 conjI[OF c1 conjI[OF c2
          conjI[OF k1 conjI[OF c3 c4]]]]]]]])
qed

text \<open>
  The package \<^verbatim>\<open>A\<close> declares \<^verbatim>\<open>B\<close> with the range \<^verbatim>\<open>^2.0.0\<close>, and \<^verbatim>\<open>B\<close> is at \<^verbatim>\<open>1.2.0\<close>:
  \<^verbatim>\<open>B@^2.0.0\<close> is handed to the installer, no link is made, and the warning names both.
\<close>

lemma version_mismatch_scenario:
  "fst (bootstrapPackage demo_sys next_cmd pkgA_next demo_state) = Done \<and>
   log (snd (bootstrapPackage demo_sys next_cmd pkgA_next demo_state)) =
     [Mkdirp ''/ws/A/node_modules'' None,
      Satisfies (Some ''1.2.0'') (Some ''^2.0.0''),
      InstallInDir ''/ws/A'' [''B@^2.0.0''] None,
      Satisfies (Some ''1.2.0'') (Some ''^2.0.0''),
      Warning (''Version mismatch inside '' @ [dquote] @ ''A'' @ [dquote] @ ''. Depends on ''
               @ [dquote] @ ''B@^2.0.0'' @ [dquote] @ '' instead of ''
               @ [dquote] @ ''B@1.2.0'' @ [dquote] @ ''.''),
      ProgressTick ''A'']"
  by code_simp

end
